theory Spec2Isabelle
  imports Complex_Main "HOL-Library.Word"
begin

section \<open>Joint-histogram mutual information (vtkImageMutualInformation.cxx)\<close>

subsection \<open>Values of type double\<close>

text \<open>
  A C++ \<open>double\<close> is an IEEE 754 binary64 value: a finite number \<open>m * 2^k\<close> with
  \<open>\<bar>m\<bar> < 2^53\<close> and \<open>-1074 \<le> k\<close> below \<open>2^1024\<close>, one of the two zeros, one of the two
  infinities, or NaN. \<open>Fin 0\<close> is the positive zero and \<open>NZero\<close> the negative one.
  Every arithmetic operation gives the exact result rounded to the nearest double,
  ties to the even significand (the default rounding mode), with gradual underflow
  and overflow to infinity; each operation is rounded on its own (no fused
  multiply-add, no extended precision).
\<close>

text \<open>The power \<open>2^k\<close>, rounding of a quotient to the nearest integer (ties to even),
  and the exponent of the unit in the last place of \<open>x\<close>.\<close>

definition pow2 :: "int \<Rightarrow> real" where
  "pow2 k = 2 powr real_of_int k"

definition round_even :: "real \<Rightarrow> int" where
  "round_even z =
     (let f = \<lfloor>z\<rfloor>; d = z - real_of_int f
      in if d < 1/2 then f else if 1/2 < d then f + 1 else if even f then f else f + 1)"

definition ulp_exp :: "real \<Rightarrow> int" where
  "ulp_exp x = max \<lfloor>log 2 \<bar>x\<bar>\<rfloor> (- 1022) - 52"

datatype dbl = Fin real | NZero | PInf | NInf | NaN

text \<open>The double nearest to the real \<open>x\<close>.\<close>

definition rnd :: "real \<Rightarrow> dbl" where
  "rnd x =
     (if x = 0 then Fin 0
      else let q = pow2 (ulp_exp x);
               r = real_of_int (round_even (x / q)) * q
           in if 2 ^ 1024 \<le> \<bar>r\<bar> then (if 0 < x then PInf else NInf)
              else if r = 0 then (if 0 < x then Fin 0 else NZero)
              else Fin r)"

text \<open>The reals that are finite doubles.\<close>

definition is_double :: "real \<Rightarrow> bool" where
  "is_double x =
     (\<exists>m k. x = real_of_int m * pow2 k \<and> \<bar>m\<bar> < 2 ^ 53 \<and> - 1074 \<le> k \<and> \<bar>x\<bar> < 2 ^ 1024)"

text \<open>The numeric value of a finite double, its sign bit, and the classes.\<close>

fun val :: "dbl \<Rightarrow> real" where
  "val (Fin a) = a"
| "val _ = 0"

fun is_neg :: "dbl \<Rightarrow> bool" where
  "is_neg (Fin a) = (a < 0)"
| "is_neg NZero = True"
| "is_neg NInf = True"
| "is_neg _ = False"

fun is_inf :: "dbl \<Rightarrow> bool" where
  "is_inf PInf = True"
| "is_inf NInf = True"
| "is_inf _ = False"

definition is_zero :: "dbl \<Rightarrow> bool" where
  "is_zero a = (a = Fin 0 \<or> a = NZero)"

definition zero_of :: "bool \<Rightarrow> dbl" where
  "zero_of neg = (if neg then NZero else Fin 0)"

definition inf_of :: "bool \<Rightarrow> dbl" where
  "inf_of neg = (if neg then NInf else PInf)"

text \<open>Negation, sum, product, quotient and the comparison \<open><\<close>.\<close>

fun dneg :: "dbl \<Rightarrow> dbl" where
  "dneg (Fin a) = (if a = 0 then NZero else Fin (- a))"
| "dneg NZero = Fin 0"
| "dneg PInf = NInf"
| "dneg NInf = PInf"
| "dneg NaN = NaN"

definition dadd :: "dbl \<Rightarrow> dbl \<Rightarrow> dbl" where
  "dadd a b =
     (if a = NaN \<or> b = NaN then NaN
      else if is_inf a then (if is_inf b \<and> a \<noteq> b then NaN else a)
      else if is_inf b then b
      else if val a + val b = 0 then (if a = NZero \<and> b = NZero then NZero else Fin 0)
      else rnd (val a + val b))"

definition dmul :: "dbl \<Rightarrow> dbl \<Rightarrow> dbl" where
  "dmul a b =
     (if a = NaN \<or> b = NaN then NaN
      else if is_inf a \<or> is_inf b
      then (if is_zero a \<or> is_zero b then NaN else inf_of (is_neg a \<noteq> is_neg b))
      else if val a * val b = 0 then zero_of (is_neg a \<noteq> is_neg b)
      else rnd (val a * val b))"

definition ddiv :: "dbl \<Rightarrow> dbl \<Rightarrow> dbl" where
  "ddiv a b =
     (if a = NaN \<or> b = NaN then NaN
      else if is_inf a then (if is_inf b then NaN else inf_of (is_neg a \<noteq> is_neg b))
      else if is_inf b then zero_of (is_neg a \<noteq> is_neg b)
      else if is_zero b then (if is_zero a then NaN else inf_of (is_neg a \<noteq> is_neg b))
      else if is_zero a then zero_of (is_neg a \<noteq> is_neg b)
      else rnd (val a / val b))"

definition dlt :: "dbl \<Rightarrow> dbl \<Rightarrow> bool" where
  "dlt a b =
     (if a = NaN \<or> b = NaN then False
      else if a = PInf \<or> b = NInf then False
      else if a = NInf \<or> b = PInf then True
      else val a < val b)"

definition dgt :: "dbl \<Rightarrow> dbl \<Rightarrow> bool" where
  "dgt a b = dlt b a"

text \<open>
  \<open>static_cast<int>(d)\<close> truncates towards zero; the behaviour is undefined when the
  truncated value is not an \<open>int\<close> (32 bits), which is \<open>None\<close> here.
\<close>

definition static_cast_int :: "dbl \<Rightarrow> int option" where
  "static_cast_int d =
     (if d = NaN \<or> is_inf d then None
      else let r = val d; t = (if 0 \<le> r then \<lfloor>r\<rfloor> else \<lceil>r\<rceil>)
           in if - (2 ^ 31) \<le> t \<and> t < 2 ^ 31 then Some t else None)"

text \<open>The conversion of an integer (\<open>int\<close> or \<open>vtkIdType\<close>) to \<open>double\<close>.\<close>

definition double_of_int :: "int \<Rightarrow> dbl" where
  "double_of_int n = rnd (real_of_int n)"

subsection \<open>The filter object\<close>

text \<open>
  The scalar type tags of VTK. The enumeration and the macro
  \<open>vtkTemplateAliasMacro\<close> belong to VTK and are not part of the repository.
\<close>

datatype scalar_type =
    VTK_VOID | VTK_BIT | VTK_CHAR | VTK_SIGNED_CHAR | VTK_UNSIGNED_CHAR
  | VTK_SHORT | VTK_UNSIGNED_SHORT | VTK_INT | VTK_UNSIGNED_INT
  | VTK_LONG | VTK_UNSIGNED_LONG | VTK_FLOAT | VTK_DOUBLE | VTK_STRING

text \<open>
  Modelled from the spec: the cases of \<open>vtkTemplateAliasMacro\<close> (declared in VTK's
  vtkTemplateAliasMacro.h, missing from the sources) are "the supported numeric
  kinds"; every other tag falls to the \<open>default:\<close> label of the switch.
\<close>

definition vtkTemplateAliasMacro :: "scalar_type \<Rightarrow> bool" where
  "vtkTemplateAliasMacro t = (t \<notin> {VTK_VOID, VTK_BIT, VTK_STRING})"

record vtkImageMutualInformation =
  NumberOfBins :: "int \<times> int"
  BinOrigin :: "dbl \<times> dbl"
  BinSpacing :: "dbl \<times> dbl"
  OutputScalarType :: scalar_type
  MutualInformation :: dbl
  NormalizedMutualInformation :: dbl

text \<open>The constructor (lines 230-250).\<close>

definition vtkImageMutualInformation_ctor :: vtkImageMutualInformation where
  "vtkImageMutualInformation_ctor =
     \<lparr> NumberOfBins = (64, 64),
       BinOrigin = (Fin 0, Fin 0),
       BinSpacing = (Fin 1, Fin 1),
       OutputScalarType = VTK_FLOAT,
       MutualInformation = Fin 0,
       NormalizedMutualInformation = Fin 0 \<rparr>"

subsection \<open>The binning kernels\<close>

text \<open>
  A stored pixel: a byte of an \<open>unsigned char\<close> image, or a value of any other
  numeric kind, given by the \<open>double\<close> that \<open>double x = *inPtr\<close> reads from it.
\<close>

datatype pixel = UCharPixel "8 word" | ScalarPixel dbl

fun to_double :: "pixel \<Rightarrow> dbl" where
  "to_double (UCharPixel w) = Fin (real (unat w))"
| "to_double (ScalarPixel d) = d"

text \<open>
  What the two stencil iterators deliver for one execution extent: the spans in order,
  each with \<open>IsInStencil()\<close> and the pairs of pixels (image A, image B) of the span.
\<close>

type_synonym span = "bool \<times> (pixel \<times> pixel) list"

text \<open>Undefined behaviour of the C++ code, as a value.\<close>

datatype fault = OutOfBounds int | CastOverflow | IntOverflow | BadArrayLength | WrongPixelType

text \<open>\<open>(*outPtr1)++\<close> with \<open>outPtr1 = outPtr + k\<close>, on a buffer of \<open>length hist\<close> cells.\<close>

definition increment :: "int \<Rightarrow> int list \<Rightarrow> fault + int list" where
  "increment k hist =
     (if 0 \<le> k \<and> k < int (length hist)
      then Inr (hist[nat k := hist ! nat k + 1])
      else Inl (OutOfBounds k))"

text \<open>
  The row offset \<open>yi*outIncY\<close> is a product of two values of type \<open>int\<close> (32 bits);
  its overflow is undefined behaviour. The sum with the pointer is pointer arithmetic.
\<close>

definition row_offset :: "int \<Rightarrow> int \<Rightarrow> fault + int" where
  "row_offset yi outIncY =
     (if - (2 ^ 31) \<le> yi * outIncY \<and> yi * outIncY < 2 ^ 31
      then Inr (yi * outIncY) else Inl IntOverflow)"

text \<open>
  Lines 499-511, for one axis: shift, scale, clamp with the two conditional
  expressions, add one half and cast.
\<close>

definition bin_coordinate :: "dbl \<Rightarrow> dbl \<Rightarrow> dbl \<Rightarrow> dbl \<Rightarrow> int option" where
  "bin_coordinate x0 xshift xscale xmax =
     (let x = dadd x0 xshift;
          x = dmul x xscale;
          x = (if dgt x (Fin 0) then x else Fin 0);
          x = (if dlt x xmax then x else xmax)
      in static_cast_int (dadd x (Fin (1/2))))"

text \<open>The body of the inner loop of the generic kernel (lines 496-516).\<close>

definition Execute_voxel ::
  "int \<times> int \<Rightarrow> dbl \<times> dbl \<Rightarrow> dbl \<times> dbl \<Rightarrow> pixel \<times> pixel \<Rightarrow> int list \<Rightarrow> fault + int list" where
  "Execute_voxel numBins binOrigin binSpacing v outPtr =
     (let xmax = double_of_int (fst numBins - 1);
          ymax = double_of_int (snd numBins - 1);
          xshift = dneg (fst binOrigin);
          yshift = dneg (snd binOrigin);
          xscale = ddiv (Fin 1) (fst binSpacing);
          yscale = ddiv (Fin 1) (snd binSpacing);
          outIncY = snd numBins
      in case bin_coordinate (to_double (fst v)) xshift xscale xmax of
           None \<Rightarrow> Inl CastOverflow
         | Some xi \<Rightarrow>
             (case bin_coordinate (to_double (snd v)) yshift yscale ymax of
                None \<Rightarrow> Inl CastOverflow
              | Some yi \<Rightarrow>
                  (case row_offset yi outIncY of
                     Inl e \<Rightarrow> Inl e
                   | Inr off \<Rightarrow> increment (off + xi) outPtr)))"

fun Execute_span ::
  "int \<times> int \<Rightarrow> dbl \<times> dbl \<Rightarrow> dbl \<times> dbl \<Rightarrow> (pixel \<times> pixel) list \<Rightarrow> int list \<Rightarrow> fault + int list" where
  "Execute_span numBins binOrigin binSpacing [] outPtr = Inr outPtr"
| "Execute_span numBins binOrigin binSpacing (v # vs) outPtr =
     (case Execute_voxel numBins binOrigin binSpacing v outPtr of
        Inl e \<Rightarrow> Inl e
      | Inr outPtr' \<Rightarrow> Execute_span numBins binOrigin binSpacing vs outPtr')"

text \<open>The generic kernel \<open>vtkImageMutualInformationExecute\<close> (lines 458-525).\<close>

fun vtkImageMutualInformationExecute ::
  "int \<times> int \<Rightarrow> dbl \<times> dbl \<Rightarrow> dbl \<times> dbl \<Rightarrow> span list \<Rightarrow> int list \<Rightarrow> fault + int list" where
  "vtkImageMutualInformationExecute numBins binOrigin binSpacing [] outPtr = Inr outPtr"
| "vtkImageMutualInformationExecute numBins binOrigin binSpacing (s # ss) outPtr =
     (if fst s
      then (case Execute_span numBins binOrigin binSpacing (snd s) outPtr of
              Inl e \<Rightarrow> Inl e
            | Inr outPtr' \<Rightarrow>
                vtkImageMutualInformationExecute numBins binOrigin binSpacing ss outPtr')
      else vtkImageMutualInformationExecute numBins binOrigin binSpacing ss outPtr)"

text \<open>
  The pre-scaled kernel (lines 528-576) reads bytes; a pixel of another kind cannot
  be behind an \<open>unsigned char *\<close>.
\<close>

definition ExecutePreScaled_voxel ::
  "int \<times> int \<Rightarrow> pixel \<times> pixel \<Rightarrow> int list \<Rightarrow> fault + int list" where
  "ExecutePreScaled_voxel numBins v outPtr =
     (case v of
        (UCharPixel a, UCharPixel b) \<Rightarrow>
          (let xmax = fst numBins - 1;
               ymax = snd numBins - 1;
               outIncY = snd numBins;
               x = uint a;
               y = uint b;
               x = (if x < xmax then x else xmax);
               y = (if y < ymax then y else ymax)
           in case row_offset y outIncY of
                Inl e \<Rightarrow> Inl e
              | Inr off \<Rightarrow> increment (off + x) outPtr)
      | _ \<Rightarrow> Inl WrongPixelType)"

fun ExecutePreScaled_span ::
  "int \<times> int \<Rightarrow> (pixel \<times> pixel) list \<Rightarrow> int list \<Rightarrow> fault + int list" where
  "ExecutePreScaled_span numBins [] outPtr = Inr outPtr"
| "ExecutePreScaled_span numBins (v # vs) outPtr =
     (case ExecutePreScaled_voxel numBins v outPtr of
        Inl e \<Rightarrow> Inl e
      | Inr outPtr' \<Rightarrow> ExecutePreScaled_span numBins vs outPtr')"

fun vtkImageMutualInformationExecutePreScaled ::
  "int \<times> int \<Rightarrow> span list \<Rightarrow> int list \<Rightarrow> fault + int list" where
  "vtkImageMutualInformationExecutePreScaled numBins [] outPtr = Inr outPtr"
| "vtkImageMutualInformationExecutePreScaled numBins (s # ss) outPtr =
     (if fst s
      then (case ExecutePreScaled_span numBins (snd s) outPtr of
              Inl e \<Rightarrow> Inl e
            | Inr outPtr' \<Rightarrow> vtkImageMutualInformationExecutePreScaled numBins ss outPtr')
      else vtkImageMutualInformationExecutePreScaled numBins ss outPtr)"

subsection \<open>One piece of work: ThreadedRequestData\<close>

text \<open>An extent \<open>[xmin, xmax, ymin, ymax, zmin, zmax]\<close>, one pair per axis.\<close>

type_synonym extent = "(int \<times> int) \<times> (int \<times> int) \<times> (int \<times> int)"

definition extent_nonempty :: "extent \<Rightarrow> bool" where
  "extent_nonempty e =
     (case e of ((x0, x1), (y0, y1), (z0, z1)) \<Rightarrow> x0 \<le> x1 \<and> y0 \<le> y1 \<and> z0 \<le> z1)"

text \<open>
  The two input images and the stencil, as far as the filter looks at them: the
  scalar types, the extents, and what the stencil iterators deliver over an extent.
\<close>

record input_data =
  ScalarType0 :: scalar_type
  ScalarType1 :: scalar_type
  Extent0 :: extent
  Extent1 :: extent
  Spans :: "extent \<Rightarrow> span list"

text \<open>Lines 997-1000 for one axis.\<close>

definition clip_axis :: "int \<times> int \<Rightarrow> int \<times> int \<Rightarrow> int \<times> int \<Rightarrow> int \<times> int" where
  "clip_axis e e0 e1 =
     (let lo = (if fst e > fst e0 then fst e else fst e0);
          lo = (if lo > fst e1 then lo else fst e1);
          hi = (if snd e < snd e0 then snd e else snd e0);
          hi = (if hi < snd e1 then hi else snd e1)
      in (lo, hi))"

text \<open>The loop of lines 994-1005; \<open>None\<close> is its \<open>return\<close>.\<close>

definition clip_extent :: "extent \<Rightarrow> extent \<Rightarrow> extent \<Rightarrow> extent option" where
  "clip_extent e e0 e1 =
     (case (e, e0, e1) of (((ex, ey, ez)), ((ax, ay, az)), ((bx, by, bz))) \<Rightarrow>
        (let cx = clip_axis ex ax bx in
         if fst cx > snd cx then None else
         let cy = clip_axis ey ay by in
         if fst cy > snd cy then None else
         let cz = clip_axis ez az bz in
         if fst cz > snd cz then None else Some (cx, cy, cz)))"

text \<open>
  Modelled from the spec: \<open>vtkMath::Floor\<close> belongs to VTK and is missing from the
  sources; it rounds a double down to an \<open>int\<close>. A value that has no \<open>int\<close> floor
  gives \<open>None\<close>, which equals no integer in the comparisons below.
\<close>

definition vtkMath_Floor :: "dbl \<Rightarrow> int option" where
  "vtkMath_Floor d =
     (if d = NaN \<or> is_inf d then None
      else if - (2 ^ 31) \<le> \<lfloor>val d\<rfloor> \<and> \<lfloor>val d\<rfloor> < 2 ^ 31 then Some \<lfloor>val d\<rfloor> else None)"

text \<open>The condition of lines 1018-1023 that selects the pre-scaled kernel.\<close>

definition prescaled_selected ::
  "int \<times> int \<Rightarrow> dbl \<times> dbl \<Rightarrow> dbl \<times> dbl \<Rightarrow> scalar_type \<Rightarrow> scalar_type \<Rightarrow> bool" where
  "prescaled_selected numBins binOrigin binSpacing t0 t1 =
     (let maxX = fst numBins - 1;
          maxY = snd numBins - 1
      in vtkMath_Floor (dadd (fst binOrigin) (Fin (1/2))) = Some 0 \<and>
         vtkMath_Floor (dadd (snd binOrigin) (Fin (1/2))) = Some 0 \<and>
         vtkMath_Floor (dadd (dadd (fst binOrigin)
             (dmul (fst binSpacing) (double_of_int maxX))) (Fin (1/2))) = Some maxX \<and>
         vtkMath_Floor (dadd (dadd (snd binOrigin)
             (dmul (snd binSpacing) (double_of_int maxY))) (Fin (1/2))) = Some maxY \<and>
         t0 = VTK_UNSIGNED_CHAR \<and> t1 = VTK_UNSIGNED_CHAR)"

text \<open>
  \<open>ThreadedRequestData\<close> (lines 954-1042) on the worker's slot \<open>data\<close> (\<open>None\<close> is the
  null pointer). It returns the slot's buffer and the diagnostics it reported.
\<close>

definition ThreadedRequestData ::
  "vtkImageMutualInformation \<Rightarrow> input_data \<Rightarrow> extent \<Rightarrow> int list option
     \<Rightarrow> fault + (int list \<times> string list)" where
  "ThreadedRequestData self inp extent data =
     (let outCount = fst (NumberOfBins self) * snd (NumberOfBins self)
      in if data = None \<and> outCount < 1 then Inl (OutOfBounds 0) else
         let outPtr = (case data of None \<Rightarrow> replicate (nat outCount) 0 | Some d \<Rightarrow> d)
         in case clip_extent extent (Extent0 inp) (Extent1 inp) of
              None \<Rightarrow> Inr (outPtr, [])
            | Some ext \<Rightarrow>
                if prescaled_selected (NumberOfBins self) (BinOrigin self) (BinSpacing self)
                     (ScalarType0 inp) (ScalarType1 inp)
                then (case vtkImageMutualInformationExecutePreScaled (NumberOfBins self)
                             (Spans inp ext) outPtr of
                        Inl e \<Rightarrow> Inl e
                      | Inr h \<Rightarrow> Inr (h, []))
                else if vtkTemplateAliasMacro (ScalarType0 inp)
                then (if vtkTemplateAliasMacro (ScalarType1 inp)
                      then (case vtkImageMutualInformationExecute (NumberOfBins self)
                                   (BinOrigin self) (BinSpacing self) (Spans inp ext) outPtr of
                              Inl e \<Rightarrow> Inl e
                            | Inr h \<Rightarrow> Inr (h, []))
                      else Inr (outPtr, [''Execute: Unknown input ScalarType'']))
                else Inr (outPtr, [''Execute: Unknown ScalarType'']))"

subsection \<open>The reduction stage: ReduceRequestData\<close>

text \<open>
  \<open>log\<close> of \<open>math.h\<close>: \<open>log(1) = +0\<close>, \<open>log(\<plusminus>0) = -\<infinity>\<close>, NaN below zero, and for the other
  finite arguments the double nearest to the logarithm (the library is taken to round
  correctly).
\<close>

definition dlog :: "dbl \<Rightarrow> dbl" where
  "dlog d =
     (if d = NaN \<or> d = NInf then NaN
      else if d = PInf then PInf
      else if val d = 0 then NInf
      else if val d < 0 then NaN
      else rnd (ln (val d)))"

text \<open>\<open>if (dc > 0) { acc += dc*log(dc); }\<close> (lines 849-853, 860-864, 874-878).\<close>

definition entropy_add :: "dbl \<Rightarrow> int \<Rightarrow> dbl" where
  "entropy_add acc c =
     (let dc = double_of_int c
      in if dgt dc (Fin 0) then dadd acc (dmul dc (dlog dc)) else acc)"

text \<open>Lines 821-828: one worker's row \<open>iy\<close> added to the scratch row and to \<open>a\<close>.\<close>

definition add_contribution :: "nat \<Rightarrow> nat \<Rightarrow> int list \<Rightarrow> int list \<times> int \<Rightarrow> int list \<times> int" where
  "add_contribution nx iy data =
     fold (\<lambda>ix (xyHist, a).
             let c = data ! (nx * iy + ix)
             in (xyHist[ix := xyHist ! ix + c], a + c)) [0..<nx]"

text \<open>Lines 807-830: the scratch row cleared, then every worker with a buffer added.\<close>

definition merge_row :: "nat \<Rightarrow> nat \<Rightarrow> int list option list \<Rightarrow> int list \<times> int" where
  "merge_row nx iy threadData =
     fold (\<lambda>slot s. case slot of None \<Rightarrow> s | Some data \<Rightarrow> add_contribution nx iy data s)
       threadData (replicate nx 0, 0)"

text \<open>Lines 856-865: the row added to \<open>xHist\<close> and to the joint entropy sum.\<close>

definition joint_row :: "nat \<Rightarrow> int list \<Rightarrow> int list \<times> dbl \<Rightarrow> int list \<times> dbl" where
  "joint_row nx xyHist =
     fold (\<lambda>ix (xHist, xyEntropy).
             let c = xyHist ! ix
             in (xHist[ix := xHist ! ix + c], entropy_add xyEntropy c)) [0..<nx]"

text \<open>
  \<open>vtkImageMutualInformationCopyRow\<close> (lines 581-593); \<open>cast\<close> is \<open>static_cast<T>\<close>.
  The caller passes \<open>outStart \<le> outEnd\<close> inside the row.
\<close>

definition vtkImageMutualInformationCopyRow ::
  "(int \<Rightarrow> pixel) \<Rightarrow> int list \<Rightarrow> int \<Rightarrow> int \<Rightarrow> pixel list" where
  "vtkImageMutualInformationCopyRow cast xyHist outStart outEnd =
     map cast (take (nat (outEnd - outStart + 1)) (drop (nat outStart) xyHist))"

record reduce_acc =
  xHist :: "int list"
  yEntropy :: dbl
  xyEntropy :: dbl
  OutRows :: "pixel list option list"
  Errors :: "string list"

text \<open>
  The body of the loop over \<open>iy\<close> (lines 797-866). A row of the output inside the
  update extent is either written (\<open>Some\<close>) or, below the \<open>default:\<close> label, reported
  and left as allocated (\<open>None\<close>); \<open>outPtr\<close> moves on in both cases.
\<close>

definition reduce_row ::
  "(scalar_type \<Rightarrow> int \<Rightarrow> pixel) \<Rightarrow> scalar_type \<Rightarrow> extent \<Rightarrow> nat \<Rightarrow> int list option list
     \<Rightarrow> nat \<Rightarrow> reduce_acc \<Rightarrow> reduce_acc" where
  "reduce_row cast outScalarType updateExtent nx threadData iy s =
     (case updateExtent of ((ue0, ue1), (ue2, ue3), _) \<Rightarrow>
        (let (outStart, outEnd) =
               (if int iy < ue2 \<or> int iy > ue3 then (0, - 1) else (ue0, ue1));
             (xyHist, a) = merge_row nx iy threadData;
             s = (if outStart \<le> outEnd
                  then (if vtkTemplateAliasMacro outScalarType
                        then s\<lparr>OutRows := OutRows s @ [Some (vtkImageMutualInformationCopyRow
                                   (cast outScalarType) xyHist outStart outEnd)]\<rparr>
                        else s\<lparr>OutRows := OutRows s @ [None],
                               Errors := Errors s @ [''Execute: Unknown output ScalarType'']\<rparr>)
                  else s);
             s = s\<lparr>yEntropy := entropy_add (yEntropy s) a\<rparr>;
             (xh, xye) = joint_row nx xyHist (xHist s, xyEntropy s)
         in s\<lparr>xHist := xh, xyEntropy := xye\<rparr>))"

text \<open>Lines 869-879: the total count and the entropy sum of the first image.\<close>

definition count_loop :: "nat \<Rightarrow> int list \<Rightarrow> int \<times> dbl" where
  "count_loop nx xh =
     fold (\<lambda>ix (count, xEntropy).
             let b = xh ! ix in (count + b, entropy_add xEntropy b)) [0..<nx] (0, Fin 0)"

record reduce_result =
  Self :: vtkImageMutualInformation
  Output :: "pixel list option list"
  Diagnostics :: "string list"
  ReturnValue :: int

text \<open>
  Line 786, \<open>new vtkIdType[2*nx + ny]\<close>: the length is computed in \<open>int\<close> (32 bits),
  where overflow is undefined behaviour, and a negative length makes \<open>new\<close> throw.
  With a negative bin count the pointer \<open>xHist = xyHist + nx\<close>, or the cells
  \<open>xHist[0..nx-1]\<close> that lines 790-793 clear, are outside the cells allocated.
\<close>

definition scratch_length :: "int \<Rightarrow> int \<Rightarrow> fault + int" where
  "scratch_length nx ny =
     (if \<not> (- (2 ^ 31) \<le> 2 * nx \<and> 2 * nx < 2 ^ 31) then Inl IntOverflow
      else if \<not> (- (2 ^ 31) \<le> 2 * nx + ny \<and> 2 * nx + ny < 2 ^ 31) then Inl IntOverflow
      else if 2 * nx + ny < 0 then Inl BadArrayLength
      else if nx < 0 \<or> ny < 0 then Inl (OutOfBounds (2 * nx + ny))
      else Inr (2 * nx + ny))"

text \<open>\<open>ReduceRequestData\<close> (lines 759-915).\<close>

definition ReduceRequestData ::
  "(scalar_type \<Rightarrow> int \<Rightarrow> pixel) \<Rightarrow> vtkImageMutualInformation \<Rightarrow> extent
     \<Rightarrow> int list option list \<Rightarrow> fault + reduce_result" where
  "ReduceRequestData cast self updateExtent threadData =
     (case scratch_length (fst (NumberOfBins self)) (snd (NumberOfBins self)) of
        Inl e \<Rightarrow> Inl e
      | Inr len \<Rightarrow>
     (let nx = nat (fst (NumberOfBins self));
          ny = nat (snd (NumberOfBins self));
          s = fold (reduce_row cast (OutputScalarType self) updateExtent nx threadData) [0..<ny]
                \<lparr>xHist = replicate nx 0, yEntropy = Fin 0, xyEntropy = Fin 0,
                 OutRows = [], Errors = []\<rparr>;
          (count, xEntropy) = count_loop nx (xHist s);
          (mutualInformation, normalizedMutualInformation) =
            (if count \<noteq> 0
             then (let dc = double_of_int count;
                       ldc = dlog dc;
                       xEntropy = dadd (ddiv (dneg xEntropy) dc) ldc;
                       yEntropy = dadd (ddiv (dneg (yEntropy s)) dc) ldc;
                       xyEntropy = dadd (ddiv (dneg (xyEntropy s)) dc) ldc
                   in (dadd (dadd xEntropy yEntropy) (dneg xyEntropy),
                       ddiv (dadd xEntropy yEntropy) xyEntropy))
             else (Fin 0, Fin 1))
      in Inr \<lparr>Self = self\<lparr>MutualInformation := mutualInformation,
                           NormalizedMutualInformation := normalizedMutualInformation\<rparr>,
              Output = OutRows s, Diagnostics = Errors s, ReturnValue = 1\<rparr>))"

subsection \<open>A run: RequestData\<close>

text \<open>
  What the surrounding pipeline supplies. \<open>SplitExtent extent piece n\<close> is the method
  of vtkThreadedImageAlgorithm: the number of pieces it can make and the extent of
  the piece. \<open>Schedule piece\<close> is the thread-local slot of the worker on which
  vtkSMPTools runs a piece. \<open>StaticCast\<close> is \<open>static_cast<T>\<close> from \<open>vtkIdType\<close>.
\<close>

record pipeline =
  NumberOfThreads :: nat
  EnableSMP :: bool
  SplitExtent :: "extent \<Rightarrow> nat \<Rightarrow> nat \<Rightarrow> nat \<times> extent"
  Schedule :: "nat \<Rightarrow> nat"
  UpdateExtent :: extent
  StaticCast :: "scalar_type \<Rightarrow> int \<Rightarrow> pixel"

text \<open>
  \<open>vtkImageMutualInformationThreadedExecute\<close> (lines 406-455) for every thread of the
  pool: the pieces that reach \<open>ThreadedRequestData\<close>, each with its slot.
\<close>

definition fixed_thread_work :: "pipeline \<Rightarrow> extent \<Rightarrow> (nat \<times> extent) list" where
  "fixed_thread_work p extent =
     concat (map (\<lambda>threadId.
                    case SplitExtent p extent threadId (NumberOfThreads p) of
                      (totalPieces, splitExt) \<Rightarrow>
                        if threadId < totalPieces \<and> extent_nonempty splitExt
                        then [(threadId, splitExt)] else [])
                 [0..<NumberOfThreads p])"

text \<open>
  Modelled from the spec: \<open>SMPRequestData\<close> belongs to vtkThreadedImageAlgorithm and is
  missing from the sources. By section 4.4 the extent is pre-split into the number of
  pieces found by the dummy call of line 721, and every piece goes through the same
  per-piece logic on the slot of the worker that runs it.
\<close>

definition smp_work :: "pipeline \<Rightarrow> extent \<Rightarrow> (nat \<times> extent) list" where
  "smp_work p extent =
     (let pieces = fst (SplitExtent p extent 0 (NumberOfThreads p))
      in concat (map (\<lambda>piece.
                        case SplitExtent p extent piece pieces of
                          (totalPieces, splitExt) \<Rightarrow>
                            if piece < totalPieces \<and> extent_nonempty splitExt
                            then [(Schedule p piece, splitExt)] else [])
                     [0..<pieces]))"

text \<open>
  The pieces in turn. Workers share nothing but the read-only inputs, and a slot is
  written by its own worker only, so running the pieces one after the other gives
  what the parallel run gives.
\<close>

fun run_work ::
  "vtkImageMutualInformation \<Rightarrow> input_data \<Rightarrow> (nat \<times> extent) list
     \<Rightarrow> int list option list \<times> string list
     \<Rightarrow> fault + (int list option list \<times> string list)" where
  "run_work self inp [] st = Inr st"
| "run_work self inp (w # ws) st =
     (case ThreadedRequestData self inp (snd w) (fst st ! fst w) of
        Inl e \<Rightarrow> Inl e
      | Inr (h, es) \<Rightarrow>
          run_work self inp ws ((fst st)[fst w := Some h], snd st @ es))"

definition work_items :: "pipeline \<Rightarrow> input_data \<Rightarrow> (nat \<times> extent) list" where
  "work_items p inp =
     (if EnableSMP p then smp_work p (Extent0 inp) else fixed_thread_work p (Extent0 inp))"

text \<open>
  \<open>RequestData\<close> (lines 653-756): the slots start empty, the pieces run, and the
  reduction follows when all of them are done.
\<close>

definition RequestData ::
  "vtkImageMutualInformation \<Rightarrow> pipeline \<Rightarrow> input_data \<Rightarrow> fault + reduce_result" where
  "RequestData self p inp =
     (let work = work_items p inp;
          slots = (if EnableSMP p then Suc (fold max (map fst work) 0)
                   else NumberOfThreads p)
      in case run_work self inp work (replicate slots None, []) of
           Inl e \<Rightarrow> Inl e
         | Inr (threadData, errs) \<Rightarrow>
             (case ReduceRequestData (StaticCast p) self (UpdateExtent p) threadData of
                Inl e \<Rightarrow> Inl e
              | Inr r \<Rightarrow> Inr (r\<lparr>Diagnostics := errs @ Diagnostics r\<rparr>)))"

text \<open>The in-mask voxel pairs of a sequence of spans.\<close>

definition in_mask_voxels :: "span list \<Rightarrow> (pixel \<times> pixel) list" where
  "in_mask_voxels spans = concat (map snd (filter fst spans))"

text \<open>The number of in-mask voxel pairs that the pieces of a run go through.\<close>

definition numberOfInMaskVoxelPairs :: "pipeline \<Rightarrow> input_data \<Rightarrow> nat" where
  "numberOfInMaskVoxelPairs p inp =
     sum_list (map (\<lambda>w. case clip_extent (snd w) (Extent0 inp) (Extent1 inp) of
                           None \<Rightarrow> 0
                         | Some ext \<Rightarrow> length (in_mask_voxels (Spans inp ext)))
                   (work_items p inp))"

subsection \<open>The clamp of the generic kernel\<close>

text \<open>The two conditional expressions of lines 505-506 on their own.\<close>

definition clamp_dbl :: "dbl \<Rightarrow> dbl \<Rightarrow> dbl" where
  "clamp_dbl x xmax =
     (let x = (if dgt x (Fin 0) then x else Fin 0) in if dlt x xmax then x else xmax)"

subsection \<open>The reduction in the words of the specification\<close>

text \<open>The merged count at offset \<open>k\<close>: the sum over the workers that have a buffer.\<close>

definition cell :: "int list option list \<Rightarrow> nat \<Rightarrow> int" where
  "cell threadData k =
     sum_list (map (\<lambda>slot. case slot of None \<Rightarrow> 0 | Some d \<Rightarrow> d ! k) threadData)"

text \<open>
  A sum \<open>S = \<Sum> c * log(c)\<close> over a sequence of counts, accumulated in doubles from
  left to right; counts that are not positive add nothing.
\<close>

definition plogp_add :: "dbl \<Rightarrow> int \<Rightarrow> dbl" where
  "plogp_add acc c =
     (if 0 < c then dadd acc (dmul (double_of_int c) (dlog (double_of_int c))) else acc)"

definition entropy_sum :: "int list \<Rightarrow> dbl" where
  "entropy_sum cs = fold (\<lambda>c acc. plogp_add acc c) cs (Fin 0)"

text \<open>The merged joint histogram at \<open>(ix, iy)\<close>, rows being \<open>nx\<close> cells long.\<close>

definition joint :: "nat \<Rightarrow> int list option list \<Rightarrow> nat \<Rightarrow> nat \<Rightarrow> int" where
  "joint nx threadData ix iy = cell threadData (nx * iy + ix)"

text \<open>
  The total count \<open>N\<close>; the three sums \<open>S\<close>: over the column totals (image A) and the
  row totals (image B) in index order, and over the cells row by row; the joint sum
  taken column by column instead; and the entropy \<open>H = -S/N + log(N)\<close>.
\<close>

definition total_count :: "nat \<Rightarrow> nat \<Rightarrow> int list option list \<Rightarrow> int" where
  "total_count nx ny threadData = (\<Sum>ix<nx. \<Sum>iy<ny. joint nx threadData ix iy)"

definition S_x :: "nat \<Rightarrow> nat \<Rightarrow> int list option list \<Rightarrow> dbl" where
  "S_x nx ny threadData =
     entropy_sum (map (\<lambda>ix. \<Sum>iy<ny. joint nx threadData ix iy) [0..<nx])"

definition S_y :: "nat \<Rightarrow> nat \<Rightarrow> int list option list \<Rightarrow> dbl" where
  "S_y nx ny threadData =
     entropy_sum (map (\<lambda>iy. \<Sum>ix<nx. joint nx threadData ix iy) [0..<ny])"

definition S_xy :: "nat \<Rightarrow> nat \<Rightarrow> int list option list \<Rightarrow> dbl" where
  "S_xy nx ny threadData =
     entropy_sum (concat (map (\<lambda>iy. map (\<lambda>ix. joint nx threadData ix iy) [0..<nx]) [0..<ny]))"


definition entropy_of :: "dbl \<Rightarrow> int \<Rightarrow> dbl" where
  "entropy_of S N = dadd (ddiv (dneg S) (double_of_int N)) (dlog (double_of_int N))"


text \<open>What the loop over the rows emits and reports for row \<open>iy\<close>.\<close>

definition row_in_extent :: "extent \<Rightarrow> nat \<Rightarrow> bool" where
  "row_in_extent updateExtent iy =
     (case updateExtent of ((ue0, ue1), (ue2, ue3), _) \<Rightarrow>
        ue2 \<le> int iy \<and> int iy \<le> ue3 \<and> ue0 \<le> ue1)"

definition out_row ::
  "(scalar_type \<Rightarrow> int \<Rightarrow> pixel) \<Rightarrow> scalar_type \<Rightarrow> extent \<Rightarrow> nat \<Rightarrow> int list option list
     \<Rightarrow> nat \<Rightarrow> pixel list option list" where
  "out_row cast t updateExtent nx threadData iy =
     (if row_in_extent updateExtent iy
      then [if vtkTemplateAliasMacro t
            then Some (vtkImageMutualInformationCopyRow (cast t)
                         (map (\<lambda>ix. joint nx threadData ix iy) [0..<nx])
                         (fst (fst updateExtent)) (snd (fst updateExtent)))
            else None]
      else [])"

definition err_row :: "scalar_type \<Rightarrow> extent \<Rightarrow> nat \<Rightarrow> string list" where
  "err_row t updateExtent iy =
     (if row_in_extent updateExtent iy \<and> \<not> vtkTemplateAliasMacro t
      then [''Execute: Unknown output ScalarType''] else [])"

text \<open>A slot is untouched or holds a buffer of zeros.\<close>

definition zero_slot :: "nat \<Rightarrow> int list option \<Rightarrow> bool" where
  "zero_slot n slot = (case slot of None \<Rightarrow> True | Some d \<Rightarrow> d = replicate n 0)"

subsection \<open>Swapping the two images\<close>





subsection \<open>Auxiliary notions for the kernels\<close>

text \<open>Spans of byte images: every pixel is an \<open>unsigned char\<close>.\<close>

fun is_uchar :: "pixel \<Rightarrow> bool" where
  "is_uchar (UCharPixel w) = True"
| "is_uchar (ScalarPixel d) = False"

definition uchar_spans :: "span list \<Rightarrow> bool" where
  "uchar_spans spans = list_all (\<lambda>s. list_all (\<lambda>v. is_uchar (fst v) \<and> is_uchar (snd v)) (snd s)) spans"

text \<open>The sum of the cells of a slot, and a slot whose buffer, if any, has \<open>n\<close> cells.\<close>

definition slot_sum :: "int list option \<Rightarrow> int" where
  "slot_sum slot = (case slot of None \<Rightarrow> 0 | Some d \<Rightarrow> sum_list d)"

definition slot_sized :: "nat \<Rightarrow> int list option \<Rightarrow> bool" where
  "slot_sized n slot = (case slot of None \<Rightarrow> True | Some d \<Rightarrow> length d = n)"

text \<open>The in-mask voxel pairs of one piece, after the clipping of lines 994-1005.\<close>

definition piece_count :: "input_data \<Rightarrow> extent \<Rightarrow> nat" where
  "piece_count inp ext =
     (case clip_extent ext (Extent0 inp) (Extent1 inp) of
        None \<Rightarrow> 0
      | Some e \<Rightarrow> length (in_mask_voxels (Spans inp e)))"

subsection \<open>Concrete inputs\<close>

text \<open>A pool of one thread whose piece is the whole extent.\<close>

definition single_piece :: "extent \<Rightarrow> pipeline" where
  "single_piece ue =
     \<lparr> NumberOfThreads = 1, EnableSMP = False,
       SplitExtent = (\<lambda>e piece n. (1, e)),
       Schedule = (\<lambda>piece. 0),
       UpdateExtent = ue,
       StaticCast = (\<lambda>t c. ScalarPixel (double_of_int c)) \<rparr>"

text \<open>Two images of one voxel each, of the same scalar type, without a stencil.\<close>

definition one_voxel :: "scalar_type \<Rightarrow> pixel \<times> pixel \<Rightarrow> input_data" where
  "one_voxel t v =
     \<lparr> ScalarType0 = t, ScalarType1 = t,
       Extent0 = ((0, 0), (0, 0), (0, 0)), Extent1 = ((0, 0), (0, 0), (0, 0)),
       Spans = (\<lambda>e. [(True, [v])]) \<rparr>"

text \<open>Byte images of one voxel, with a stencil that leaves the voxel out.\<close>

definition masked_out :: input_data where
  "masked_out =
     \<lparr> ScalarType0 = VTK_UNSIGNED_CHAR, ScalarType1 = VTK_UNSIGNED_CHAR,
       Extent0 = ((0, 0), (0, 0), (0, 0)), Extent1 = ((0, 0), (0, 0), (0, 0)),
       Spans = (\<lambda>e. [(False, [(UCharPixel 3, UCharPixel 4)])]) \<rparr>"

text \<open>
  Two byte images of 4 x 4 x 1 voxels, A all zeros and B all ones, without a stencil:
  the iterators deliver one span for each of the four rows.
\<close>

definition scenario_4x4 :: input_data where
  "scenario_4x4 =
     \<lparr> ScalarType0 = VTK_UNSIGNED_CHAR, ScalarType1 = VTK_UNSIGNED_CHAR,
       Extent0 = ((0, 3), (0, 3), (0, 0)), Extent1 = ((0, 3), (0, 3), (0, 0)),
       Spans = (\<lambda>e. replicate 4 (True, replicate 4 (UCharPixel 0, UCharPixel 1))) \<rparr>"



section \<open>Properties\<close>

subsection \<open>Rounding to the nearest double\<close>

lemma pow2_pos [simp]: "0 < pow2 k"
  by (simp add: pow2_def)

lemma pow2_nz [simp]: "pow2 k \<noteq> 0"
  using pow2_pos[of k] by linarith

lemma abs_pow2 [simp]: "\<bar>pow2 k\<bar> = pow2 k"
  by (rule abs_of_pos) simp

lemma pow2_add: "pow2 (a + b) = pow2 a * pow2 b"
  by (simp add: pow2_def powr_add)

lemma pow2_diff: "pow2 (a - b) = pow2 a / pow2 b"
  by (simp add: pow2_def powr_diff)

lemma pow2_nat: "0 \<le> k \<Longrightarrow> pow2 k = 2 ^ nat k"
  by (simp add: pow2_def powr_realpow[symmetric])

lemma pow2_0 [simp]: "pow2 0 = 1"
  by (simp add: pow2_def)

lemma pow2_1 [simp]: "pow2 1 = 2"
  by (simp add: pow2_def)

lemma pow2_mono: "a \<le> b \<Longrightarrow> pow2 a \<le> pow2 b"
  by (simp add: pow2_def)

lemma abs_real_lt: "\<bar>m\<bar> < 2 ^ 53 \<Longrightarrow> \<bar>real_of_int m\<bar> < 2 ^ 53"
proof -
  assume "\<bar>m\<bar> < 2 ^ 53"
  then have "real_of_int \<bar>m\<bar> < real_of_int (2 ^ 53)" by (simp only: of_int_less_iff)
  then show ?thesis by simp
qed

lemma round_even_int [simp]: "round_even (real_of_int j) = j"
  by (simp add: round_even_def)

lemma round_even_le:
  assumes "z \<le> real_of_int N"
  shows "round_even z \<le> N"
proof -
  have f: "\<lfloor>z\<rfloor> \<le> N" using assms by (simp add: floor_le_iff)
  show ?thesis
  proof (cases "\<lfloor>z\<rfloor> = N")
    case True
    then have "z - real_of_int \<lfloor>z\<rfloor> \<le> 0" using assms by simp
    then show ?thesis using True by (simp add: round_even_def Let_def)
  next
    case False
    then have "\<lfloor>z\<rfloor> + 1 \<le> N" using f by simp
    then show ?thesis using f by (auto simp: round_even_def Let_def)
  qed
qed

lemma round_even_ge:
  assumes "real_of_int N \<le> z"
  shows "N \<le> round_even z"
proof -
  have "N \<le> \<lfloor>z\<rfloor>" using assms by (simp add: le_floor_iff)
  then show ?thesis by (auto simp: round_even_def Let_def)
qed

lemma expo_bounds:
  assumes "x \<noteq> 0"
  shows "pow2 \<lfloor>log 2 \<bar>x\<bar>\<rfloor> \<le> \<bar>x\<bar>" "\<bar>x\<bar> < pow2 (\<lfloor>log 2 \<bar>x\<bar>\<rfloor> + 1)"
proof -
  have "0 < \<bar>x\<bar>" using assms by simp
  then have "2 powr real_of_int \<lfloor>log 2 \<bar>x\<bar>\<rfloor> \<le> \<bar>x\<bar> \<and> \<bar>x\<bar> < 2 powr (real_of_int \<lfloor>log 2 \<bar>x\<bar>\<rfloor> + 1)"
    using floor_log_eq_powr_iff[of "\<bar>x\<bar>" 2 "\<lfloor>log 2 \<bar>x\<bar>\<rfloor>"] by simp
  then show "pow2 \<lfloor>log 2 \<bar>x\<bar>\<rfloor> \<le> \<bar>x\<bar>" "\<bar>x\<bar> < pow2 (\<lfloor>log 2 \<bar>x\<bar>\<rfloor> + 1)"
    by (simp_all add: pow2_def)
qed

lemma ulp_exp_ge: "- 1074 \<le> ulp_exp x"
  by (simp add: ulp_exp_def)

lemma ulp_exp_mono:
  assumes "x \<noteq> 0" "\<bar>x\<bar> \<le> \<bar>y\<bar>"
  shows "ulp_exp x \<le> ulp_exp y"
proof -
  have "0 < \<bar>x\<bar>" "0 < \<bar>y\<bar>" using assms by simp_all
  then have "log 2 \<bar>x\<bar> \<le> log 2 \<bar>y\<bar>" using assms(2) by simp
  then have "\<lfloor>log 2 \<bar>x\<bar>\<rfloor> \<le> \<lfloor>log 2 \<bar>y\<bar>\<rfloor>" by (rule floor_mono)
  then show ?thesis by (simp add: ulp_exp_def)
qed

lemma ulp_exp_le_of_bound:
  assumes "x \<noteq> 0" "\<bar>x\<bar> < pow2 (53 + k)" "- 1074 \<le> k"
  shows "ulp_exp x \<le> k"
proof -
  have "pow2 \<lfloor>log 2 \<bar>x\<bar>\<rfloor> < pow2 (53 + k)" using expo_bounds(1)[OF assms(1)] assms(2) by simp
  then have "\<lfloor>log 2 \<bar>x\<bar>\<rfloor> < 53 + k" by (simp add: pow2_def)
  then show ?thesis using assms(3) by (simp add: ulp_exp_def)
qed

lemma quotient_bound:
  assumes "x \<noteq> 0"
  shows "\<bar>x / pow2 (ulp_exp x)\<bar> < 2 ^ 53"
proof -
  let ?e = "\<lfloor>log 2 \<bar>x\<bar>\<rfloor>"
  have "?e + 1 - ulp_exp x \<le> 53" by (simp add: ulp_exp_def)
  then have "pow2 (?e + 1 - ulp_exp x) \<le> pow2 53" by (rule pow2_mono)
  moreover have "\<bar>x\<bar> / pow2 (ulp_exp x) < pow2 (?e + 1) / pow2 (ulp_exp x)"
    using expo_bounds(2)[OF assms] by (simp add: divide_strict_right_mono)
  ultimately have a: "\<bar>x\<bar> / pow2 (ulp_exp x) < pow2 53" by (simp add: pow2_diff)
  show ?thesis using a by (simp add: pow2_nat)
qed

lemma quotient_int:
  assumes "j \<le> k"
  shows "real_of_int m * pow2 k / pow2 j = real_of_int (m * 2 ^ nat (k - j))"
proof -
  have "pow2 k / pow2 j = pow2 (k - j)" by (simp add: pow2_diff)
  also have "\<dots> = 2 ^ nat (k - j)" using assms by (simp add: pow2_nat)
  finally have e: "pow2 k / pow2 j = 2 ^ nat (k - j)" .
  have "real_of_int m * pow2 k / pow2 j = real_of_int m * (pow2 k / pow2 j)"
    by simp
  also have "\<dots> = real_of_int (m * 2 ^ nat (k - j))" unfolding e by simp
  finally show ?thesis .
qed

text \<open>A double is a multiple of every unit in the last place that is not above its own.\<close>

lemma is_double_multiple:
  assumes "is_double y" "y \<noteq> 0" "j \<le> ulp_exp y"
  shows "\<exists>i. y / pow2 j = real_of_int i"
proof -
  from assms obtain m k where y: "y = real_of_int m * pow2 k" and m: "\<bar>m\<bar> < 2 ^ 53"
    and k: "- 1074 \<le> k"
    unfolding is_double_def by blast
  have "\<bar>real_of_int m\<bar> < 2 ^ 53" using m by (rule abs_real_lt)
  then have "\<bar>real_of_int m\<bar> * pow2 k < 2 ^ 53 * pow2 k" by (simp add: mult_strict_right_mono)
  then have "\<bar>y\<bar> < pow2 (53 + k)" by (simp add: y abs_mult pow2_add pow2_nat)
  then have "ulp_exp y \<le> k" by (rule ulp_exp_le_of_bound[OF assms(2) _ k])
  then have "j \<le> k" using assms(3) by simp
  then show ?thesis unfolding y using quotient_int[of j k m] by blast
qed

lemma rnd_exact:
  assumes "is_double x"
  shows "rnd x = Fin x"
proof (cases "x = 0")
  case True
  then show ?thesis by (simp add: rnd_def)
next
  case False
  obtain i where i: "x / pow2 (ulp_exp x) = real_of_int i"
    using is_double_multiple[OF assms False order_refl] by blast
  have b: "\<bar>x\<bar> < 2 ^ 1024" using assms unfolding is_double_def by blast
  have "real_of_int (round_even (x / pow2 (ulp_exp x))) * pow2 (ulp_exp x) = x"
    unfolding i round_even_int unfolding i[symmetric] by simp
  then show ?thesis using False b by (simp add: rnd_def Let_def)
qed

lemma rnd_cases:
  assumes "x \<noteq> 0"
  defines "r \<equiv> real_of_int (round_even (x / pow2 (ulp_exp x))) * pow2 (ulp_exp x)"
  shows "rnd x = (if 2 ^ 1024 \<le> \<bar>r\<bar> then (if 0 < x then PInf else NInf)
                  else if r = 0 then (if 0 < x then Fin 0 else NZero) else Fin r)"
  using assms by (simp add: rnd_def Let_def)

lemma rnd_is_double:
  assumes "rnd x = Fin r"
  shows "is_double r"
proof (cases "x = 0")
  case True
  then have r0: "r = 0" using assms by (simp add: rnd_def)
  show ?thesis unfolding is_double_def
    by (intro exI[of _ 0] exI[of _ "0::int"]) (simp add: r0)
next
  case False
  define q where "q = pow2 (ulp_exp x)"
  define j where "j = round_even (x / q)"
  have rdef: "rnd x = (if 2 ^ 1024 \<le> \<bar>real_of_int j * q\<bar> then (if 0 < x then PInf else NInf)
      else if real_of_int j * q = 0 then (if 0 < x then Fin 0 else NZero) else Fin (real_of_int j * q))"
    using False by (simp add: rnd_def Let_def q_def j_def)
  have b: "\<bar>real_of_int j * q\<bar> < 2 ^ 1024" using assms rdef by (auto split: if_splits)
  have r: "r = real_of_int j * q" using assms rdef by (auto split: if_splits)
  have qb: "\<bar>x / q\<bar> < 2 ^ 53" unfolding q_def by (rule quotient_bound[OF False])
  have "x / q \<le> 2 ^ 53" "- (2 ^ 53) \<le> x / q" using qb[unfolded abs_less_iff] by linarith+
  then have qq: "x / q \<le> real_of_int (2 ^ 53)" "real_of_int (- (2 ^ 53)) \<le> x / q" by simp_all
  have "j \<le> 2 ^ 53" unfolding j_def by (rule round_even_le[OF qq(1)])
  moreover have "- (2 ^ 53) \<le> j" unfolding j_def by (rule round_even_ge[OF qq(2)])
  ultimately consider "\<bar>j\<bar> < 2 ^ 53" | "j = 2 ^ 53" | "j = - (2 ^ 53)" by linarith
  then show ?thesis
  proof cases
    case 1
    show ?thesis unfolding is_double_def
      by (intro exI[of _ j] exI[of _ "ulp_exp x"]) (use 1 b r in \<open>simp add: q_def ulp_exp_ge\<close>)
  next
    case 2
    have "r = real_of_int (2 ^ 52) * pow2 (ulp_exp x + 1)"
      by (simp add: r 2 q_def pow2_add pow2_nat)
    moreover have "- 1074 \<le> ulp_exp x + 1" using ulp_exp_ge[of x] by simp
    moreover have "\<bar>r\<bar> < 2 ^ 1024" using b r by simp
    ultimately show ?thesis unfolding is_double_def
      by (intro exI[of _ "2 ^ 52"] exI[of _ "ulp_exp x + 1"]) simp
  next
    case 3
    have "r = real_of_int (- (2 ^ 52)) * pow2 (ulp_exp x + 1)"
      by (simp add: r 3 q_def pow2_add pow2_nat)
    moreover have "- 1074 \<le> ulp_exp x + 1" using ulp_exp_ge[of x] by simp
    moreover have "\<bar>r\<bar> < 2 ^ 1024" using b r by simp
    ultimately show ?thesis unfolding is_double_def
      by (intro exI[of _ "- (2 ^ 52)"] exI[of _ "ulp_exp x + 1"]) simp
  qed
qed

lemma is_double_int:
  assumes "\<bar>n\<bar> < 2 ^ 53"
  shows "is_double (real_of_int n)"
proof -
  have "\<bar>real_of_int n\<bar> < 2 ^ 53" using assms by (rule abs_real_lt)
  also have "(2::real) ^ 53 < 2 ^ 1024" by simp
  finally have "\<bar>real_of_int n\<bar> < 2 ^ 1024" .
  then show ?thesis unfolding is_double_def
    by (intro exI[of _ n] exI[of _ "0::int"]) (use assms in simp)
qed

lemma is_double_half:
  assumes "\<bar>n\<bar> < 2 ^ 53"
  shows "is_double (real_of_int n / 2)"
proof -
  have "\<bar>real_of_int n\<bar> < 2 ^ 53" using assms by (rule abs_real_lt)
  then have "\<bar>real_of_int n / 2\<bar> < 2 ^ 53" by simp
  also have "(2::real) ^ 53 < 2 ^ 1024" by simp
  finally have "\<bar>real_of_int n / 2\<bar> < 2 ^ 1024" .
  moreover have "pow2 (- 1) = 1 / 2" by (simp add: pow2_def powr_minus inverse_eq_divide)
  ultimately show ?thesis unfolding is_double_def
    by (intro exI[of _ n] exI[of _ "- 1::int"]) (use assms in simp)
qed

lemma is_double_neg: "is_double x \<Longrightarrow> is_double (- x)"
  unfolding is_double_def
  apply (elim exE conjE)
  subgoal for m k by (intro exI[of _ "- m"] exI[of _ k]) simp
  done

lemma is_double_scale:
  assumes "is_double x" "0 \<le> j" "\<bar>x\<bar> * 2 ^ j < 2 ^ 1024"
  shows "is_double (x * 2 ^ j)"
proof -
  from assms(1) obtain m k where x: "x = real_of_int m * pow2 k" and m: "\<bar>m\<bar> < 2 ^ 53"
    and k: "- 1074 \<le> k"
    unfolding is_double_def by blast
  have "pow2 (k + int j) = pow2 k * 2 ^ j" by (simp add: pow2_add pow2_nat)
  then have "x * 2 ^ j = real_of_int m * pow2 (k + int j)" by (simp add: x)
  moreover have "\<bar>x * 2 ^ j\<bar> < 2 ^ 1024" using assms(3) by (simp add: abs_mult)
  ultimately show ?thesis unfolding is_double_def
    using m k by (intro exI[of _ m] exI[of _ "k + int j"]) simp
qed

lemma rnd_int: "\<bar>n\<bar> < 2 ^ 53 \<Longrightarrow> rnd (real_of_int n) = Fin (real_of_int n)"
  by (rule rnd_exact) (rule is_double_int)

lemma rnd_half: "\<bar>n\<bar> < 2 ^ 53 \<Longrightarrow> rnd (real_of_int n / 2) = Fin (real_of_int n / 2)"
  by (rule rnd_exact) (rule is_double_half)

text \<open>Rounding does not cross a double: it is monotone against a representable bound.\<close>

lemma rnd_le:
  assumes "0 < x" "x \<le> y" "is_double y"
  shows "\<exists>r. rnd x = Fin r \<and> 0 \<le> r \<and> r \<le> y"
proof -
  define q where "q = pow2 (ulp_exp x)"
  define j where "j = round_even (x / q)"
  have x0: "x \<noteq> 0" and y0: "y \<noteq> 0" using assms by simp_all
  have "\<bar>x\<bar> \<le> \<bar>y\<bar>" using assms by simp
  then have "ulp_exp x \<le> ulp_exp y" by (rule ulp_exp_mono[OF x0])
  then obtain N where N: "y / q = real_of_int N"
    unfolding q_def using is_double_multiple[OF assms(3) y0] by blast
  have q: "0 < q" by (simp add: q_def)
  have "x / q \<le> y / q" using assms(2) q by (simp add: divide_right_mono)
  then have jN: "j \<le> N" unfolding j_def N by (rule round_even_le)
  have "real_of_int 0 \<le> x / q" using assms(1) q by simp
  then have j0: "0 \<le> j" unfolding j_def by (rule round_even_ge)
  have "real_of_int j * q \<le> real_of_int N * q" using jN q by simp
  also have "\<dots> = y" using N q by (simp add: field_simps)
  finally have le: "real_of_int j * q \<le> y" .
  have ge: "0 \<le> real_of_int j * q" using j0 q by simp
  have "\<bar>y\<bar> < 2 ^ 1024" using assms(3) unfolding is_double_def by blast
  then have b: "\<not> 2 ^ 1024 \<le> \<bar>real_of_int j * q\<bar>" using le ge by simp
  have "rnd x = (if real_of_int j * q = 0 then Fin 0 else Fin (real_of_int j * q))"
    using rnd_cases[OF x0] b assms(1) by (simp add: q_def j_def)
  then show ?thesis using le ge assms by auto
qed

lemma rnd_ge:
  assumes "0 < y" "y \<le> x" "is_double y"
  shows "rnd x = PInf \<or> (\<exists>r. rnd x = Fin r \<and> y \<le> r)"
proof -
  define q where "q = pow2 (ulp_exp x)"
  define j where "j = round_even (x / q)"
  have x0: "x \<noteq> 0" and y0: "y \<noteq> 0" and xp: "0 < x" using assms by simp_all
  have q: "0 < q" by (simp add: q_def)
  have le: "y \<le> real_of_int j * q"
  proof (cases "ulp_exp x \<le> ulp_exp y")
    case True
    then obtain N where N: "y / q = real_of_int N"
      unfolding q_def using is_double_multiple[OF assms(3) y0] by blast
    have "y / q \<le> x / q" using assms(2) q by (simp add: divide_right_mono)
    then have "N \<le> j" unfolding j_def N by (rule round_even_ge)
    then have "real_of_int N * q \<le> real_of_int j * q" using q by simp
    moreover have "real_of_int N * q = y" using N q by (simp add: field_simps)
    ultimately show ?thesis by simp
  next
    case False
    let ?e = "\<lfloor>log 2 \<bar>x\<bar>\<rfloor>"
    have "- 1074 < ulp_exp x" using False ulp_exp_ge[of y] by simp
    then have e: "ulp_exp x = ?e - 52" by (simp add: ulp_exp_def max_def split: if_splits)
    have "pow2 ?e / q \<le> \<bar>x\<bar> / q" using expo_bounds(1)[OF x0] q by (simp add: divide_right_mono)
    moreover have "pow2 ?e / q = real_of_int (2 ^ 52)"
      unfolding q_def e by (simp add: pow2_diff[symmetric] pow2_nat)
    ultimately have "real_of_int (2 ^ 52) \<le> x / q" using xp by simp
    then have "2 ^ 52 \<le> j" unfolding j_def by (rule round_even_ge)
    then have "real_of_int (2 ^ 52) * q \<le> real_of_int j * q" using q by simp
    moreover have "real_of_int (2 ^ 52) * q = pow2 ?e"
      unfolding q_def e by (simp add: pow2_diff pow2_nat)
    ultimately have a: "pow2 ?e \<le> real_of_int j * q" by simp
    have "\<lfloor>log 2 \<bar>y\<bar>\<rfloor> - 52 \<le> ulp_exp y" by (simp add: ulp_exp_def)
    moreover have "ulp_exp y < ulp_exp x" using False by simp
    ultimately have "\<lfloor>log 2 \<bar>y\<bar>\<rfloor> < ?e" using e by linarith
    then have "\<lfloor>log 2 \<bar>y\<bar>\<rfloor> + 1 \<le> ?e" by simp
    then have "pow2 (\<lfloor>log 2 \<bar>y\<bar>\<rfloor> + 1) \<le> pow2 ?e" by (rule pow2_mono)
    then have "\<bar>y\<bar> < pow2 ?e" using expo_bounds(2)[OF y0] by simp
    then show ?thesis using a assms(1) by simp
  qed
  have "0 < real_of_int j * q" using le assms(1) by simp
  then have "rnd x = (if 2 ^ 1024 \<le> \<bar>real_of_int j * q\<bar> then PInf else Fin (real_of_int j * q))"
    using rnd_cases[OF x0] xp by (simp add: q_def j_def)
  then show ?thesis using le by auto
qed

lemma rnd_neg:
  assumes "x < 0"
  shows "rnd x = NInf \<or> rnd x = NZero \<or> (\<exists>r. rnd x = Fin r \<and> r < 0)"
proof -
  define q where "q = pow2 (ulp_exp x)"
  define j where "j = round_even (x / q)"
  define s where "s = real_of_int j * q"
  have x0: "x \<noteq> 0" using assms by simp
  have q: "0 < q" by (simp add: q_def)
  have "x / q \<le> real_of_int 0" using assms q by (simp add: divide_le_0_iff)
  then have "j \<le> 0" unfolding j_def by (rule round_even_le)
  then have "real_of_int j * q \<le> 0" using q by (simp add: mult_le_0_iff)
  then have s: "s \<le> 0" by (simp add: s_def)
  have "rnd x = (if 2 ^ 1024 \<le> \<bar>s\<bar> then NInf else if s = 0 then NZero else Fin s)"
    using rnd_cases[OF x0] assms by (simp add: q_def j_def s_def)
  then show ?thesis using s by (cases "s = 0") auto
qed

lemma rnd_pos:
  assumes "0 < x"
  shows "rnd x = PInf \<or> (\<exists>r. rnd x = Fin r \<and> 0 \<le> r)"
proof -
  define q where "q = pow2 (ulp_exp x)"
  define j where "j = round_even (x / q)"
  have x0: "x \<noteq> 0" using assms by simp
  have q: "0 < q" by (simp add: q_def)
  have "real_of_int 0 \<le> x / q" using assms q by simp
  then have "0 \<le> j" unfolding j_def by (rule round_even_ge)
  then have "0 \<le> real_of_int j * q" using q by simp
  moreover have "rnd x = (if 2 ^ 1024 \<le> \<bar>real_of_int j * q\<bar> then PInf
      else if real_of_int j * q = 0 then Fin 0 else Fin (real_of_int j * q))"
    using rnd_cases[OF x0] assms by (simp add: q_def j_def)
  ultimately show ?thesis by auto
qed


subsection \<open>Bounds on the logarithm of 2\<close>

lemma ln2_bounds: "1/2 \<le> ln (2::real)" "ln (2::real) \<le> 1"
proof -
  have "ln (1/2 :: real) \<le> 1/2 - 1" by (rule ln_le_minus_one) simp
  moreover have "ln (1/2 :: real) = - ln 2" by (simp add: ln_div)
  ultimately show "1/2 \<le> ln (2::real)" by simp
  show "ln (2::real) \<le> 1" using ln_le_minus_one[of "2::real"] by simp
qed

subsection \<open>The state before the first run\<close>

text \<open>
  C9. Before any run the scalar NormalizedMutualInformation holds the constructor's
  value 0.0, which is below the floor 1.0 of a completed run: "NMI \<ge> 1" does not
  hold for the object before its first run.
\<close>

theorem ctor_NormalizedMutualInformation_below_floor:
  "NormalizedMutualInformation vtkImageMutualInformation_ctor = Fin 0 \<and>
   dlt (NormalizedMutualInformation vtkImageMutualInformation_ctor) (Fin 1) \<and>
   \<not> dlt (Fin 1) (NormalizedMutualInformation vtkImageMutualInformation_ctor) \<and>
   NormalizedMutualInformation vtkImageMutualInformation_ctor \<noteq> Fin 1"
  by (simp add: vtkImageMutualInformation_ctor_def dlt_def)

subsection \<open>Doubles that are exact\<close>

lemma double_of_int_small: "\<bar>n\<bar> < 2 ^ 53 \<Longrightarrow> double_of_int n = Fin (real_of_int n)"
  by (simp add: double_of_int_def rnd_int)

lemma double_of_int_int32:
  "- (2 ^ 31) \<le> n \<Longrightarrow> n < 2 ^ 31 \<Longrightarrow> double_of_int n = Fin (real_of_int n)"
  by (rule double_of_int_small) simp

lemma rnd_0 [simp]: "rnd 0 = Fin 0"
  by (simp add: rnd_def)

lemma rnd_1 [simp]: "rnd 1 = Fin 1"
  using rnd_int[of 1] by simp

lemma rnd_numeral: "(numeral w :: int) < 2 ^ 53 \<Longrightarrow> rnd (numeral w) = Fin (numeral w)"
  using rnd_int[of "numeral w"] by simp

lemma rnd_neg_numeral:
  "(numeral w :: int) < 2 ^ 53 \<Longrightarrow> rnd (- numeral w) = Fin (- numeral w)"
  using rnd_int[of "- numeral w"] by simp

lemma rnd_one_half [simp]: "rnd (1/2) = Fin (1/2)"
  using rnd_half[of 1] by simp

lemma rnd_numeral_half:
  "(numeral w :: int) < 2 ^ 53 \<Longrightarrow> rnd (numeral w / 2) = Fin (numeral w / 2)"
  using rnd_half[of "numeral w"] by simp



lemma double_of_int_0 [simp]: "double_of_int 0 = Fin 0"
  by (simp add: double_of_int_def)

lemma double_of_int_1 [simp]: "double_of_int 1 = Fin 1"
  by (simp add: double_of_int_def)

lemma double_of_int_numeral:
  "(numeral w :: int) < 2 ^ 53 \<Longrightarrow> double_of_int (numeral w) = Fin (numeral w)"
  by (simp add: double_of_int_def rnd_numeral)

text \<open>The conversion keeps the sign of the integer.\<close>

lemma double_of_int_pos:
  assumes "0 < c"
  shows "double_of_int c = PInf \<or> (\<exists>r. double_of_int c = Fin r \<and> 1 \<le> r)"
proof -
  have "is_double 1" using is_double_int[of 1] by simp
  moreover have "(1::real) \<le> real_of_int c" using assms by simp
  ultimately show ?thesis unfolding double_of_int_def by (intro rnd_ge) simp_all
qed

lemma dgt_double_of_int: "dgt (double_of_int c) (Fin 0) \<longleftrightarrow> 0 < c"
proof -
  consider "0 < c" | "c = 0" | "c < 0" by linarith
  then show ?thesis
  proof cases
    case 1
    then show ?thesis using double_of_int_pos[OF 1] by (auto simp: dgt_def dlt_def)
  next
    case 2
    then show ?thesis by (simp add: dgt_def dlt_def)
  next
    case 3
    then have "real_of_int c < 0" by simp
    then show ?thesis using rnd_neg[of "real_of_int c"] 3
      by (auto simp: double_of_int_def dgt_def dlt_def)
  qed
qed

subsection \<open>The rounding at work\<close>

lemma ulp_exp_eq:
  assumes "pow2 e \<le> \<bar>x\<bar>" "\<bar>x\<bar> < pow2 (e + 1)" "- 1022 \<le> e"
  shows "ulp_exp x = e - 52"
proof -
  have "0 < \<bar>x\<bar>" using assms(1) pow2_pos[of e] by linarith
  moreover have "2 powr real_of_int e \<le> \<bar>x\<bar> \<and> \<bar>x\<bar> < 2 powr (real_of_int e + 1)"
    using assms(1,2) by (simp add: pow2_def)
  ultimately have "\<lfloor>log 2 \<bar>x\<bar>\<rfloor> = e"
    using floor_log_eq_powr_iff[of "\<bar>x\<bar>" 2 e] by simp
  then show ?thesis using assms(3) by (simp add: ulp_exp_def)
qed

lemma pow2_neg: "pow2 (- int k) = 1 / 2 ^ k"
  using pow2_diff[of 0 "int k"] by (simp add: pow2_nat)

lemma pow2_neg_numeral: "pow2 (- numeral k) = 1 / 2 ^ numeral k"
  using pow2_neg[of "numeral k"] by simp

lemma pow2_minus_1: "pow2 (- 1) = 1 / 2"
  using pow2_neg[of 1] by simp

lemma pow2_numeral: "pow2 (numeral k) = 2 ^ numeral k"
  using pow2_nat[of "numeral k"] by simp

text \<open>The rounding of a normal number \<open>x\<close> with \<open>2^e \<le> \<bar>x\<bar> < 2^(e+1)\<close>, step by step.\<close>

lemma rnd_eval:
  assumes "pow2 e \<le> \<bar>x\<bar>" "\<bar>x\<bar> < pow2 (e + 1)" "- 1022 \<le> e"
      and "round_even (x / pow2 (e - 52)) = j"
      and "r = real_of_int j * pow2 (e - 52)" "r \<noteq> 0" "\<bar>r\<bar> < 2 ^ 1024"
  shows "rnd x = Fin r"
proof -
  have "0 < \<bar>x\<bar>" using assms(1) pow2_pos[of e] by linarith
  then have "x \<noteq> 0" by simp
  then show ?thesis
    using assms(4-7) by (simp add: rnd_def ulp_exp_eq[OF assms(1-3)] Let_def)
qed

text \<open>
  The sum of \<open>0.49999999999999994\<close> (the double below one half) and \<open>0.5\<close> lies half-way
  between two doubles and rounds to the even one, \<open>1.0\<close>.
\<close>

lemma rounding_of_a_tie: "dadd (Fin (1/2 - 1/2^54)) (Fin (1/2)) = Fin 1"
proof -
  have "rnd (1/2 - 1/2^54 + 1/2) = Fin 1"
    by (rule rnd_eval[where e = "- 1" and j = "2 ^ 53"])
      (simp_all add: pow2_neg_numeral pow2_minus_1 round_even_def Let_def)
  then show ?thesis by (simp add: dadd_def)
qed

text \<open>
  The double nearest to \<open>0.4\<close> is \<open>3602879701896397 / 2^53\<close>, a little above \<open>0.4\<close>; its
  reciprocal rounds to \<open>2.5\<close>, so with bin spacing \<open>0.4\<close> and bin origin \<open>0\<close> the intensity
  \<open>1\<close> has the coordinate \<open>static_cast<int>(2.5 + 0.5) = 3\<close>.
\<close>

lemma rounding_of_a_reciprocal:
  "ddiv (Fin 1) (Fin (3602879701896397 / 2 ^ 53)) = Fin (5/2)"
proof -
  have "rnd (1 / (3602879701896397 / 2 ^ 53)) = Fin (5/2)"
    by (rule rnd_eval[where e = 1 and j = 5629499534213120])
      (simp_all add: pow2_neg_numeral pow2_minus_1 pow2_numeral round_even_def Let_def)
  then show ?thesis by (simp add: ddiv_def is_zero_def)
qed

lemma bin_coordinate_spacing_two_fifths:
  "bin_coordinate (Fin 1) (dneg (Fin 0)) (ddiv (Fin 1) (Fin (3602879701896397 / 2 ^ 53)))
     (double_of_int (10 - 1)) = Some 3"
  unfolding rounding_of_a_reciprocal
  by (simp add: bin_coordinate_def Let_def dadd_def dmul_def dgt_def dlt_def
      is_zero_def rnd_numeral rnd_numeral_half double_of_int_numeral static_cast_int_def)

subsection \<open>Bin coordinates of the generic kernel\<close>

lemma bin_coordinate_clamp:
  "bin_coordinate x0 xshift xscale xmax =
     static_cast_int (dadd (clamp_dbl (dmul (dadd x0 xshift) xscale) xmax) (Fin (1/2)))"
  by (simp add: bin_coordinate_def clamp_dbl_def Let_def)

text \<open>Whatever the double, the clamped value is finite and between 0 and the maximum.\<close>

lemma clamp_dbl_Fin:
  assumes "0 \<le> m"
  shows "\<exists>r. clamp_dbl x (Fin m) = Fin r \<and> 0 \<le> r \<and> r \<le> m"
  using assms by (cases x) (auto simp: clamp_dbl_def dgt_def dlt_def Let_def)

lemma static_cast_int_Fin:
  assumes "0 \<le> s" "\<lfloor>s\<rfloor> < 2 ^ 31"
  shows "static_cast_int (Fin s) = Some \<lfloor>s\<rfloor>"
proof -
  have "- (2 ^ 31) \<le> \<lfloor>s\<rfloor>" using assms(1) by (simp add: le_floor_iff)
  then show ?thesis using assms
    by (simp only: static_cast_int_def Let_def val.simps is_inf.simps dbl.distinct) simp
qed

text \<open>Adding one half and truncating stays on the axis, also after rounding.\<close>

lemma cast_half:
  assumes "0 \<le> r" "r \<le> real_of_int (n - 1)" "n < 2 ^ 31"
  shows "\<exists>k. static_cast_int (dadd (Fin r) (Fin (1/2))) = Some k \<and> 0 \<le> k \<and> k \<le> n - 1"
proof -
  have n: "1 \<le> n" using assms(1,2) by linarith
  have "\<bar>2 * n - 1\<bar> < 2 ^ 53" using n assms(3) by simp
  then have d: "is_double (real_of_int (2 * n - 1) / 2)" by (rule is_double_half)
  have "0 < r + 1/2" "r + 1/2 \<le> real_of_int (2 * n - 1) / 2" using assms by simp_all
  then obtain s where s: "rnd (r + 1/2) = Fin s" "0 \<le> s" "s \<le> real_of_int (2 * n - 1) / 2"
    using rnd_le[OF _ _ d] by blast
  have a: "dadd (Fin r) (Fin (1/2)) = Fin s" using s(1) assms(1) by (simp add: dadd_def)
  have "s < real_of_int n" using s(3) by simp
  then have b: "\<lfloor>s\<rfloor> < n" by (simp add: floor_less_iff)
  have c: "0 \<le> \<lfloor>s\<rfloor>" using s(2) by simp
  have "\<lfloor>s\<rfloor> < 2 ^ 31" using b assms(3) by linarith
  then have "static_cast_int (Fin s) = Some \<lfloor>s\<rfloor>"
    using s(2) by (intro static_cast_int_Fin)
  then show ?thesis using a b c by simp
qed

text \<open>
  For every double, finite or not, and every shift and scale, the coordinate exists
  and lies on the axis.
\<close>

lemma bin_coordinate_range:
  assumes "1 \<le> n" "n < 2 ^ 31"
  shows "\<exists>xi. bin_coordinate x0 xshift xscale (double_of_int (n - 1)) = Some xi \<and>
              0 \<le> xi \<and> xi \<le> n - 1"
proof -
  have m: "double_of_int (n - 1) = Fin (real_of_int (n - 1))"
    using assms by (intro double_of_int_int32) simp_all
  obtain r where r: "clamp_dbl (dmul (dadd x0 xshift) xscale) (Fin (real_of_int (n - 1))) = Fin r"
      "0 \<le> r" "r \<le> real_of_int (n - 1)"
    using clamp_dbl_Fin[of "real_of_int (n - 1)"] assms(1) by force
  show ?thesis using cast_half[OF r(2) r(3) assms(2)] r(1)
    by (simp add: bin_coordinate_clamp m)
qed

text \<open>A scaled value that is not above zero lands on the first bin, one that is not
  below the maximum on the last.\<close>

lemma bin_coordinate_low:
  assumes "1 \<le> n" "n < 2 ^ 31" "\<not> dgt (dmul (dadd x0 xshift) xscale) (Fin 0)"
  shows "bin_coordinate x0 xshift xscale (double_of_int (n - 1)) = Some 0"
proof -
  have m: "double_of_int (n - 1) = Fin (real_of_int (n - 1))"
    using assms by (intro double_of_int_int32) simp_all
  have "clamp_dbl (dmul (dadd x0 xshift) xscale) (Fin (real_of_int (n - 1))) = Fin 0"
    using assms(1,3) by (auto simp: clamp_dbl_def dlt_def)
  then show ?thesis
    by (simp add: bin_coordinate_clamp m dadd_def static_cast_int_def)
qed

lemma bin_coordinate_high:
  assumes "1 \<le> n" "n < 2 ^ 31" "\<not> dlt (dmul (dadd x0 xshift) xscale) (double_of_int (n - 1))"
      and "dgt (dmul (dadd x0 xshift) xscale) (Fin 0)"
  shows "bin_coordinate x0 xshift xscale (double_of_int (n - 1)) = Some (n - 1)"
proof -
  have m: "double_of_int (n - 1) = Fin (real_of_int (n - 1))"
    using assms by (intro double_of_int_int32) simp_all
  have "\<bar>2 * n - 1\<bar> < 2 ^ 53" using assms(1,2) by simp
  then have "rnd (real_of_int (2 * n - 1) / 2) = Fin (real_of_int (2 * n - 1) / 2)"
    by (rule rnd_half)
  moreover have e: "real_of_int (2 * n - 1) / 2 = real_of_int (n - 1) + 1/2" by simp
  ultimately have h: "rnd (real_of_int (n - 1) + 1/2) = Fin (real_of_int (n - 1) + 1/2)"
    by (simp only: e)
  have f: "\<lfloor>real_of_int (n - 1) + 1/2\<rfloor> = n - 1" by linarith
  have p: "0 < real_of_int (n - 1) + 1/2" using assms(1) by simp
  have "dadd (Fin (real_of_int (n - 1))) (Fin (1/2)) = rnd (real_of_int (n - 1) + 1/2)"
    using p unfolding dadd_def by simp
  then have d: "dadd (Fin (real_of_int (n - 1))) (Fin (1/2)) = Fin (real_of_int (n - 1) + 1/2)"
    by (simp only: h)
  have "\<lfloor>real_of_int (n - 1) + 1/2\<rfloor> < 2 ^ 31" using assms(2) by (simp only: f)
  then have "static_cast_int (Fin (real_of_int (n - 1) + 1/2))
               = Some \<lfloor>real_of_int (n - 1) + 1/2\<rfloor>"
    using p by (intro static_cast_int_Fin) simp_all
  then have "static_cast_int (Fin (real_of_int (n - 1) + 1/2)) = Some (n - 1)"
    by (simp only: f)
  moreover have "clamp_dbl (dmul (dadd x0 xshift) xscale) (Fin (real_of_int (n - 1)))
                   = Fin (real_of_int (n - 1))"
    using assms(3,4) by (simp add: clamp_dbl_def m)
  ultimately show ?thesis by (simp only: bin_coordinate_clamp m d)
qed

lemma square_bound:
  fixes n :: int
  assumes "1 \<le> n" "n * n < 2 ^ 31"
  shows "n < 2 ^ 31"
proof -
  have "n * 1 \<le> n * n" using assms(1) by (intro mult_left_mono) simp_all
  then show ?thesis using assms(2) by simp
qed



subsection \<open>Intensities that are not finite\<close>

lemma bin_coordinate_NaN:
  assumes "1 \<le> n" "n < 2 ^ 31"
  shows "bin_coordinate NaN xshift xscale (double_of_int (n - 1)) = Some 0"
  using assms by (intro bin_coordinate_low) (simp_all add: dadd_def dmul_def dgt_def dlt_def)

text \<open>The reciprocal of a positive double is a positive double or infinite.\<close>

lemma reciprocal_pos:
  assumes "0 < s" "is_double s"
  shows "ddiv (Fin 1) (Fin s) = PInf \<or> (\<exists>r. ddiv (Fin 1) (Fin s) = Fin r \<and> 0 < r)"
proof -
  have "pow2 (- 1074) \<le> pow2 0" by (rule pow2_mono) simp
  moreover have "(1::real) < 2 ^ 1024" by simp
  ultimately have "pow2 (- 1074) < 2 ^ 1024" by (simp only: pow2_0)
  then have "pow2 (- 1074) = real_of_int 1 * pow2 (- 1074) \<and> \<bar>1::int\<bar> < 2 ^ 53 \<and>
             (- 1074::int) \<le> - 1074 \<and> \<bar>pow2 (- 1074)\<bar> < 2 ^ 1024"
    by (simp only: abs_pow2) simp
  then have "is_double (pow2 (- 1074))"
    unfolding is_double_def by blast
  moreover have "s < 2 ^ 1024" using assms(2) unfolding is_double_def by auto
  then have "1 / 2 ^ 1024 < 1 / s" using assms(1) by (simp add: field_simps)
  then have "pow2 (- 1074) \<le> 1 / s"
  proof -
    have "pow2 (- 1074) \<le> pow2 (- 1024)" by (rule pow2_mono) simp
    also have "pow2 (- 1024) = 1 / 2 ^ 1024"
      using pow2_diff[of 0 1024] by (simp add: pow2_nat)
    finally show ?thesis using \<open>1 / 2 ^ 1024 < 1 / s\<close> by simp
  qed
  ultimately have "rnd (1 / s) = PInf \<or> (\<exists>r. rnd (1 / s) = Fin r \<and> pow2 (- 1074) \<le> r)"
    by (intro rnd_ge) simp_all
  moreover have "0 < r" if "pow2 (- 1074) \<le> r" for r
    using that pow2_pos[of "- 1074"] by linarith
  ultimately show ?thesis using assms(1) by (auto simp: ddiv_def is_zero_def)
qed

lemma bin_coordinate_PInf:
  assumes "1 \<le> n" "n < 2 ^ 31" "0 < spacing" "is_double spacing"
  shows "bin_coordinate PInf (dneg (Fin origin)) (ddiv (Fin 1) (Fin spacing))
           (double_of_int (n - 1)) = Some (n - 1)"
proof -
  have m: "double_of_int (n - 1) = Fin (real_of_int (n - 1))"
    using assms by (intro double_of_int_int32) simp_all
  have "dmul (dadd PInf (dneg (Fin origin))) (ddiv (Fin 1) (Fin spacing)) = PInf"
    using reciprocal_pos[OF assms(3,4)]
    by (auto simp: dadd_def dmul_def is_zero_def inf_of_def)
  then show ?thesis using assms(1,2)
    by (intro bin_coordinate_high) (simp_all add: m dgt_def dlt_def)
qed

lemma bin_coordinate_NInf:
  assumes "1 \<le> n" "n < 2 ^ 31" "0 < spacing" "is_double spacing"
  shows "bin_coordinate NInf (dneg (Fin origin)) (ddiv (Fin 1) (Fin spacing))
           (double_of_int (n - 1)) = Some 0"
proof -
  have "dmul (dadd NInf (dneg (Fin origin))) (ddiv (Fin 1) (Fin spacing)) = NInf"
    using reciprocal_pos[OF assms(3,4)]
    by (auto simp: dadd_def dmul_def is_zero_def inf_of_def)
  then show ?thesis using assms(1,2)
    by (intro bin_coordinate_low) (simp_all add: dgt_def dlt_def)
qed

text \<open>
  C10. The claim: in the generic kernel a NaN or infinite intensity still makes
  exactly one increment inside the histogram buffer, and no index out of bounds
  arises for any floating-point input. The coordinates are indeed on their axes
  (\<open>bin_coordinate_NaN\<close>, \<open>bin_coordinate_PInf\<close>, \<open>bin_coordinate_NInf\<close>, and
  \<open>bin_coordinate_range\<close> for every double), but the kernel steps rows by
  \<open>outIncY = numBins[1]\<close> (line 482) in a buffer of \<open>numBins[0] * numBins[1]\<close> cells
  whose rows are \<open>numBins[0]\<close> long (lines 970-974, 821): with 1 bin on the x axis and
  2 on the y axis, the pair (NaN, 1.0) has the coordinates (0, 1) and is counted at
  offset 2 of a buffer of 2 cells.
\<close>

theorem Execute_voxel_NaN_outside_buffer:
  "bin_coordinate (to_double (ScalarPixel NaN)) (dneg (Fin 0)) (ddiv (Fin 1) (Fin 1))
       (double_of_int (1 - 1)) = Some 0 \<and>
   bin_coordinate (to_double (ScalarPixel (Fin 1))) (dneg (Fin 0)) (ddiv (Fin 1) (Fin 1))
       (double_of_int (2 - 1)) = Some 1 \<and>
   Execute_voxel (1, 2) (Fin 0, Fin 0) (Fin 1, Fin 1)
       (ScalarPixel NaN, ScalarPixel (Fin 1)) (replicate (nat (1 * 2)) 0)
     = Inl (OutOfBounds 2)"
  by (simp add: Execute_voxel_def bin_coordinate_def dgt_def dlt_def dadd_def dmul_def
      ddiv_def is_zero_def zero_of_def static_cast_int_def rnd_numeral_half
      increment_def row_offset_def Let_def)

subsection \<open>The row stride of the kernels\<close>

text \<open>
  C1. The claim: after a run the cells of the joint histogram sum to the number of
  in-mask voxel pairs, for all inputs. Both kernels address the cell \<open>(xi, yi)\<close> at
  \<open>yi * numBins[1] + xi\<close> (lines 482, 514 and 545, 565), while the buffer is allocated
  and reduced with rows of \<open>numBins[0]\<close> cells (lines 970-974, 821). With bins
  \<open>(1, 2)\<close> and the byte images A = [0], B = [1], the only voxel pair is counted at
  offset 2 of a buffer of 2 cells: the increment leaves the histogram and no cell
  holds the pair. (For \<open>numBins[1] \<le> numBins[0]\<close> the sum is right, see
  \<open>run_sum_of_cells\<close>.)
\<close>

theorem RequestData_counts_outside_buffer:
  "numberOfInMaskVoxelPairs (single_piece ((0, 0), (0, 1), (0, 0)))
       (one_voxel VTK_UNSIGNED_CHAR (UCharPixel 0, UCharPixel 1)) = 1 \<and>
   RequestData (vtkImageMutualInformation_ctor\<lparr>NumberOfBins := (1, 2)\<rparr>)
       (single_piece ((0, 0), (0, 1), (0, 0)))
       (one_voxel VTK_UNSIGNED_CHAR (UCharPixel 0, UCharPixel 1))
     = Inl (OutOfBounds 2)"
  by (simp add: RequestData_def numberOfInMaskVoxelPairs_def in_mask_voxels_def
      work_items_def fixed_thread_work_def single_piece_def one_voxel_def
      vtkImageMutualInformation_ctor_def extent_nonempty_def ThreadedRequestData_def
      clip_extent_def clip_axis_def prescaled_selected_def vtkMath_Floor_def
      dadd_def dmul_def is_zero_def zero_of_def rnd_numeral_half
      ExecutePreScaled_voxel_def increment_def row_offset_def Let_def)

subsection \<open>The pre-scaled kernel against the generic kernel\<close>

text \<open>
  C5. The claim: whenever the pre-scaled kernel is selected, its histogram is the one
  the generic kernel would produce. With 2 bins on each axis, bin origin (-0.5, 0)
  and bin spacing (1, 1), the check of lines 1018-1023 selects the pre-scaled kernel
  for byte images (\<open>Floor(-0.5 + 0.5) = 0\<close> and \<open>Floor(-0.5 + 1 + 0.5) = 1\<close>); for the
  voxel pair (0, 0) it counts in cell (0, 0), the generic kernel in cell (1, 0),
  since \<open>(0 + 0.5) * 1 + 0.5\<close> truncates to 1. All the numbers involved are exact in
  binary floating point. (For bin origin 0 and bin spacing 1 the two kernels agree,
  see \<open>prescaled_eq_generic_identity\<close>.)
\<close>

theorem prescaled_differs_from_generic:
  "prescaled_selected (2, 2) (Fin (- 1/2), Fin 0) (Fin 1, Fin 1)
       VTK_UNSIGNED_CHAR VTK_UNSIGNED_CHAR \<and>
   vtkImageMutualInformationExecutePreScaled (2, 2)
       [(True, [(UCharPixel 0, UCharPixel 0)])] [0, 0, 0, 0] = Inr [1, 0, 0, 0] \<and>
   vtkImageMutualInformationExecute (2, 2) (Fin (- 1/2), Fin 0) (Fin 1, Fin 1)
       [(True, [(UCharPixel 0, UCharPixel 0)])] [0, 0, 0, 0] = Inr [0, 1, 0, 0]"
  by (simp add: prescaled_selected_def vtkMath_Floor_def ExecutePreScaled_voxel_def
      Execute_voxel_def bin_coordinate_def dgt_def dlt_def dadd_def dmul_def ddiv_def
      is_zero_def zero_of_def static_cast_int_def rnd_numeral_half
      increment_def row_offset_def Let_def)

subsection \<open>The loops of the reduction stage\<close>

text \<open>The test \<open>dc > 0\<close> on the converted count is the test \<open>c > 0\<close> on the count.\<close>

lemma entropy_add_eq: "entropy_add acc c = plogp_add acc c"
  by (simp add: entropy_add_def plogp_add_def dgt_double_of_int Let_def)

lemma entropy_sum_append:
  "entropy_sum (xs @ ys) = fold (\<lambda>c acc. plogp_add acc c) ys (entropy_sum xs)"
  by (simp add: entropy_sum_def)

lemma fold_upt_update:
  "m \<le> length xs \<Longrightarrow>
   fold (\<lambda>i (ys, a). (ys[i := ys ! i + f i], g i a)) [0..<m] (xs, a) =
     (map (\<lambda>i. if i < m then xs ! i + f i else xs ! i) [0..<length xs], fold g [0..<m] a)"
proof (induction m)
  case 0
  show ?case by (simp add: map_nth)
next
  case (Suc m)
  then have m: "m < length xs" by simp
  have "(map (\<lambda>i. if i < m then xs ! i + f i else xs ! i) [0..<length xs])[m := xs ! m + f m]
        = map (\<lambda>i. if i < Suc m then xs ! i + f i else xs ! i) [0..<length xs]"
    using m by (intro nth_equalityI) (auto simp: nth_list_update less_Suc_eq)
  then show ?case using Suc m by simp
qed

lemma fold_add_int: "fold (\<lambda>i a. a + f i) [0..<m] (a::int) = a + (\<Sum>i<m. f i)"
  by (induction m) simp_all

lemma fold_entropy_add:
  "fold (\<lambda>i acc. entropy_add acc (f i)) [0..<m] e =
     fold (\<lambda>c acc. plogp_add acc c) (map f [0..<m]) e"
  by (simp add: fold_map comp_def entropy_add_eq)

lemma add_contribution_eq:
  assumes "length xyHist = nx"
  shows "add_contribution nx iy data (xyHist, a) =
           (map (\<lambda>ix. xyHist ! ix + data ! (nx * iy + ix)) [0..<nx],
            a + (\<Sum>ix<nx. data ! (nx * iy + ix)))"
proof -
  have "add_contribution nx iy data (xyHist, a) =
          fold (\<lambda>i (ys, a). (ys[i := ys ! i + data ! (nx * iy + i)], a + data ! (nx * iy + i)))
            [0..<nx] (xyHist, a)"
    by (simp add: add_contribution_def Let_def)
  also have "\<dots> = (map (\<lambda>i. if i < nx then xyHist ! i + data ! (nx * iy + i) else xyHist ! i)
                       [0..<length xyHist],
                    fold (\<lambda>i a. a + data ! (nx * iy + i)) [0..<nx] a)"
    using assms by (intro fold_upt_update) simp
  finally show ?thesis using assms by (simp add: fold_add_int)
qed

lemma merge_fold:
  assumes "length row = nx"
  shows "fold (\<lambda>slot s. case slot of None \<Rightarrow> s | Some data \<Rightarrow> add_contribution nx iy data s)
           threadData (row, a) =
         (map (\<lambda>ix. row ! ix + joint nx threadData ix iy) [0..<nx],
          a + (\<Sum>ix<nx. joint nx threadData ix iy))"
  using assms
proof (induction threadData arbitrary: row a)
  case Nil
  then show ?case using map_nth[of row] by (simp add: joint_def cell_def)
next
  case (Cons slot td)
  show ?case
  proof (cases slot)
    case None
    then show ?thesis using Cons by (simp add: joint_def cell_def)
  next
    case (Some d)
    let ?row = "map (\<lambda>ix. row ! ix + d ! (nx * iy + ix)) [0..<nx]"
    have l: "length ?row = nx" by simp
    have "fold (\<lambda>slot s. case slot of None \<Rightarrow> s | Some data \<Rightarrow> add_contribution nx iy data s)
            (slot # td) (row, a) =
          fold (\<lambda>slot s. case slot of None \<Rightarrow> s | Some data \<Rightarrow> add_contribution nx iy data s)
            td (?row, a + (\<Sum>ix<nx. d ! (nx * iy + ix)))"
      using Some Cons.prems by (simp add: add_contribution_eq)
    also have "\<dots> = (map (\<lambda>ix. ?row ! ix + joint nx td ix iy) [0..<nx],
                      a + (\<Sum>ix<nx. d ! (nx * iy + ix)) + (\<Sum>ix<nx. joint nx td ix iy))"
      by (rule Cons.IH[OF l])
    also have "\<dots> = (map (\<lambda>ix. row ! ix + joint nx (slot # td) ix iy) [0..<nx],
                      a + (\<Sum>ix<nx. joint nx (slot # td) ix iy))"
      using Some by (simp add: joint_def cell_def sum.distrib)
    finally show ?thesis .
  qed
qed

lemma merge_row_eq:
  "merge_row nx iy threadData =
     (map (\<lambda>ix. joint nx threadData ix iy) [0..<nx], \<Sum>ix<nx. joint nx threadData ix iy)"
  by (simp add: merge_row_def merge_fold)

lemma joint_row_eq:
  assumes "length xh = nx"
  shows "joint_row nx row (xh, e) =
           (map (\<lambda>ix. xh ! ix + row ! ix) [0..<nx],
            fold (\<lambda>c acc. plogp_add acc c) (map (\<lambda>ix. row ! ix) [0..<nx]) e)"
proof -
  have "joint_row nx row (xh, e) =
          fold (\<lambda>i (ys, acc). (ys[i := ys ! i + row ! i], entropy_add acc (row ! i)))
            [0..<nx] (xh, e)"
    by (simp add: joint_row_def Let_def)
  also have "\<dots> = (map (\<lambda>i. if i < nx then xh ! i + row ! i else xh ! i) [0..<length xh],
                    fold (\<lambda>i acc. entropy_add acc (row ! i)) [0..<nx] e)"
    using assms by (intro fold_upt_update) simp
  finally show ?thesis using assms by (simp add: fold_entropy_add)
qed

lemma count_loop_eq:
  "count_loop nx xh = (\<Sum>ix<nx. xh ! ix, entropy_sum (map (\<lambda>ix. xh ! ix) [0..<nx]))"
proof -
  have "fold (\<lambda>ix (count, xEntropy). (count + xh ! ix, entropy_add xEntropy (xh ! ix))) [0..<m] (c, e)
        = (c + (\<Sum>ix<m. xh ! ix),
           fold (\<lambda>c acc. plogp_add acc c) (map (\<lambda>ix. xh ! ix) [0..<m]) e)" for m c e
    by (induction m) (simp_all add: entropy_add_eq)
  then show ?thesis by (simp add: count_loop_def Let_def entropy_sum_def)
qed

lemma reduce_row_eq:
  assumes "length (xHist s) = nx"
  shows "reduce_row cast t ue nx td iy s =
           \<lparr>xHist = map (\<lambda>ix. xHist s ! ix + joint nx td ix iy) [0..<nx],
            yEntropy = plogp_add (yEntropy s) (\<Sum>ix<nx. joint nx td ix iy),
            xyEntropy = fold (\<lambda>c acc. plogp_add acc c)
                          (map (\<lambda>ix. joint nx td ix iy) [0..<nx]) (xyEntropy s),
            OutRows = OutRows s @ out_row cast t ue nx td iy,
            Errors = Errors s @ err_row t ue iy\<rparr>"
proof -
  obtain ue0 ue1 ue2 ue3 uz where ue: "ue = ((ue0, ue1), (ue2, ue3), uz)"
    by (metis prod.collapse)
  have m: "map (\<lambda>ix. map (\<lambda>ix. joint nx td ix iy) [0..<nx] ! ix) [0..<nx]
             = map (\<lambda>ix. joint nx td ix iy) [0..<nx]"
    by simp
  have j: "joint_row nx (map (\<lambda>ix. joint nx td ix iy) [0..<nx]) (xHist s, xyEntropy s) =
             (map (\<lambda>ix. xHist s ! ix + joint nx td ix iy) [0..<nx],
              fold (\<lambda>c acc. plogp_add acc c)
                (map (\<lambda>ix. joint nx td ix iy) [0..<nx]) (xyEntropy s))"
    using assms by (simp add: joint_row_eq m)
  show ?thesis
    using j
    by (cases s) (auto simp: reduce_row_def ue merge_row_eq entropy_add_eq out_row_def
        err_row_def row_in_extent_def Let_def)
qed

lemma reduce_rows_eq:
  "fold (reduce_row cast t ue nx td) [0..<m]
     \<lparr>xHist = replicate nx 0, yEntropy = Fin 0, xyEntropy = Fin 0, OutRows = [], Errors = []\<rparr> =
   \<lparr>xHist = map (\<lambda>ix. \<Sum>iy<m. joint nx td ix iy) [0..<nx],
    yEntropy = entropy_sum (map (\<lambda>iy. \<Sum>ix<nx. joint nx td ix iy) [0..<m]),
    xyEntropy = entropy_sum
                  (concat (map (\<lambda>iy. map (\<lambda>ix. joint nx td ix iy) [0..<nx]) [0..<m])),
    OutRows = concat (map (out_row cast t ue nx td) [0..<m]),
    Errors = concat (map (err_row t ue) [0..<m])\<rparr>"
proof (induction m)
  case 0
  show ?case by (simp add: list_eq_iff_nth_eq entropy_sum_def)
next
  case (Suc m)
  show ?case
    by (simp add: Suc reduce_row_eq[where nx = nx] entropy_sum_append)
qed

lemma scratch_length_ok:
  "0 \<le> nx \<Longrightarrow> 0 \<le> ny \<Longrightarrow> 2 * nx + ny < 2 ^ 31 \<Longrightarrow> scratch_length nx ny = Inr (2 * nx + ny)"
  by (simp add: scratch_length_def)

text \<open>
  The whole reduction stage in closed form, for bin counts in the range of the \<open>int\<close>
  arithmetic of line 786: the sums run over the merged histogram, the rows emitted are
  those of the update extent.
\<close>

lemma ReduceRequestData_eq:
  fixes self :: vtkImageMutualInformation
  defines "nx \<equiv> nat (fst (NumberOfBins self))" and "ny \<equiv> nat (snd (NumberOfBins self))"
  assumes "0 \<le> fst (NumberOfBins self)" "0 \<le> snd (NumberOfBins self)"
      and "2 * fst (NumberOfBins self) + snd (NumberOfBins self) < 2 ^ 31"
  shows "ReduceRequestData cast self ue td =
     Inr \<lparr>Self = self\<lparr>
        MutualInformation :=
          (if total_count nx ny td \<noteq> 0
           then dadd (dadd (entropy_of (S_x nx ny td) (total_count nx ny td))
                           (entropy_of (S_y nx ny td) (total_count nx ny td)))
                     (dneg (entropy_of (S_xy nx ny td) (total_count nx ny td)))
           else Fin 0),
        NormalizedMutualInformation :=
          (if total_count nx ny td \<noteq> 0
           then ddiv (dadd (entropy_of (S_x nx ny td) (total_count nx ny td))
                           (entropy_of (S_y nx ny td) (total_count nx ny td)))
                     (entropy_of (S_xy nx ny td) (total_count nx ny td))
           else Fin 1)\<rparr>,
      Output = concat (map (out_row cast (OutputScalarType self) ue nx td) [0..<ny]),
      Diagnostics = concat (map (err_row (OutputScalarType self) ue) [0..<ny]),
      ReturnValue = 1\<rparr>"
proof -
  have e: "map ((!) (map (\<lambda>ix. \<Sum>iy<ny. joint nx td ix iy) [0..<nx])) [0..<nx]
          = map (\<lambda>ix. \<Sum>iy<ny. joint nx td ix iy) [0..<nx]"
    using map_nth[of "map (\<lambda>ix. \<Sum>iy<ny. joint nx td ix iy) [0..<nx]"] by simp
  have c: "count_loop nx (map (\<lambda>ix. \<Sum>iy<ny. joint nx td ix iy) [0..<nx]) =
             (total_count nx ny td, S_x nx ny td)"
    unfolding count_loop_eq e by (simp add: total_count_def S_x_def)
  show ?thesis
    unfolding ReduceRequestData_def scratch_length_ok[OF assms(3-5)]
      nx_def[symmetric] ny_def[symmetric] Let_def reduce_rows_eq
    by (simp add: c S_y_def S_xy_def entropy_of_def)
qed

lemma sum2: "(\<Sum>i<2. f i) = f 0 + (f (Suc 0) :: 'a :: comm_monoid_add)"
  by (simp add: numeral_2_eq_2)

lemma upt2: "[0..<2] = [0, Suc 0]"
  by (simp add: numeral_2_eq_2)

subsection \<open>The entropies of small histograms\<close>

text \<open>The logarithm of 2 as the library returns it: a positive double below 1.\<close>

lemma dlog_2: "\<exists>l. dlog (Fin 2) = Fin l \<and> 1/2 \<le> l \<and> l \<le> 1 \<and> is_double l"
proof -
  have "is_double 1" using is_double_int[of 1] by simp
  then obtain l where l: "rnd (ln 2) = Fin l" "0 \<le> l" "l \<le> 1"
    using rnd_le[of "ln 2" 1] ln2_bounds by auto
  have "is_double (1/2)" using is_double_half[of 1] by simp
  then have "rnd (ln 2) = PInf \<or> (\<exists>r. rnd (ln 2) = Fin r \<and> 1/2 \<le> r)"
    using ln2_bounds by (intro rnd_ge) simp_all
  then have "1/2 \<le> l" using l(1) by auto
  moreover have "is_double l" using l(1) by (rule rnd_is_double)
  ultimately show ?thesis using l by (simp add: dlog_def)
qed

lemma dlog_1 [simp]: "dlog (Fin 1) = Fin 0"
  by (simp add: dlog_def)

text \<open>A count of one adds nothing to a sum \<open>S\<close>, a count of zero neither.\<close>

lemma plogp_add_1: "plogp_add (Fin a) 1 = (if a = 0 then Fin 0 else rnd a)"
  by (simp add: plogp_add_def dmul_def dadd_def zero_of_def)

lemma plogp_add_0 [simp]: "plogp_add acc 0 = acc"
  by (simp add: plogp_add_def)

text \<open>Doubling a double in the middle of the range is exact.\<close>

lemma rnd_twice:
  assumes "is_double l" "\<bar>l\<bar> \<le> 2 ^ 1000"
  shows "rnd (2 * l) = Fin (2 * l)" "rnd (4 * l) = Fin (4 * l)" "rnd (8 * l) = Fin (8 * l)"
    "rnd (16 * l) = Fin (16 * l)"
proof -
  have b: "\<bar>l\<bar> * 2 ^ j < 2 ^ 1024" if "j \<le> 4" for j :: nat
  proof -
    have "\<bar>l\<bar> * 2 ^ j \<le> 2 ^ 1000 * (2::real) ^ j" using assms(2) by (simp add: mult_right_mono)
    also have "\<dots> = 2 ^ (1000 + j)" by (simp add: power_add)
    also have "\<dots> < 2 ^ 1024" using that by (intro power_strict_increasing) simp_all
    finally show ?thesis .
  qed
  show "rnd (2 * l) = Fin (2 * l)"
    using rnd_exact[OF is_double_scale[OF assms(1) _ b[of 1]]] by (simp add: mult.commute)
  show "rnd (4 * l) = Fin (4 * l)"
    using rnd_exact[OF is_double_scale[OF assms(1) _ b[of 2]]] by (simp add: mult.commute)
  show "rnd (8 * l) = Fin (8 * l)"
    using rnd_exact[OF is_double_scale[OF assms(1) _ b[of 3]]] by (simp add: mult.commute)
  show "rnd (16 * l) = Fin (16 * l)"
    using rnd_exact[OF is_double_scale[OF assms(1) _ b[of 4]]] by (simp add: mult.commute)
qed

text \<open>
  Three equal entropies \<open>H = log 2\<close> give \<open>MI = log 2\<close> and \<open>NMI = 2\<close>: the sum \<open>H + H\<close> is
  exact.
\<close>

lemma metrics_of_equal_entropies:
  assumes "is_double l" "1/2 \<le> l" "l \<le> 1"
  shows "dadd (dadd (Fin l) (Fin l)) (dneg (Fin l)) = Fin l"
    and "ddiv (dadd (Fin l) (Fin l)) (Fin l) = Fin 2"
proof -
  have b: "\<bar>l\<bar> \<le> 2 ^ 1000"
  proof -
    have "\<bar>l\<bar> \<le> 1" using assms by simp
    also have "(1::real) \<le> 2 ^ 1000" by simp
    finally show ?thesis .
  qed
  have s: "dadd (Fin l) (Fin l) = Fin (2 * l)"
    using assms(2) rnd_twice(1)[OF assms(1) b] by (simp add: dadd_def)
  show "dadd (dadd (Fin l) (Fin l)) (dneg (Fin l)) = Fin l"
    unfolding s using assms(2) rnd_exact[OF assms(1)] by (simp add: dadd_def)
  have "rnd 2 = Fin 2" using rnd_int[of 2] by simp
  then show "ddiv (dadd (Fin l) (Fin l)) (Fin l) = Fin 2"
    unfolding s using assms(2) by (simp add: ddiv_def is_zero_def)
qed

lemma metrics_log2:
  "dadd (dadd (dlog (Fin 2)) (dlog (Fin 2))) (dneg (dlog (Fin 2))) = dlog (Fin 2)"
  "ddiv (dadd (dlog (Fin 2)) (dlog (Fin 2))) (dlog (Fin 2)) = Fin 2"
proof -
  obtain l where l: "dlog (Fin 2) = Fin l" "1/2 \<le> l" "l \<le> 1" "is_double l"
    using dlog_2 by blast
  show "dadd (dadd (dlog (Fin 2)) (dlog (Fin 2))) (dneg (dlog (Fin 2))) = dlog (Fin 2)"
    "ddiv (dadd (dlog (Fin 2)) (dlog (Fin 2))) (dlog (Fin 2)) = Fin 2"
    unfolding l(1) by (rule metrics_of_equal_entropies[OF l(4) l(2) l(3)])+
qed

text \<open>The entropy of an empty sum over \<open>N = 2\<close> is \<open>log 2\<close>.\<close>

lemma entropy_of_zero_2: "entropy_of (Fin 0) 2 = dlog (Fin 2)"
proof -
  obtain l where l: "dlog (Fin 2) = Fin l" "1/2 \<le> l" "is_double l" using dlog_2 by blast
  have "double_of_int 2 = Fin 2" using double_of_int_small[of 2] by simp
  then show ?thesis using l(2) rnd_exact[OF l(3)]
    by (simp add: entropy_of_def l(1) ddiv_def dadd_def is_zero_def zero_of_def)
qed

lemma eval_22:
  "total_count 2 2 [Some [1, 0, 0, 1]] = 2"
  "S_x 2 2 [Some [1, 0, 0, 1]] = Fin 0"
  "S_y 2 2 [Some [1, 0, 0, 1]] = Fin 0"
  "S_xy 2 2 [Some [1, 0, 0, 1]] = Fin 0"
  by (simp_all add: total_count_def S_x_def S_y_def S_xy_def joint_def cell_def sum2 upt2
      entropy_sum_def plogp_add_1)

text \<open>
  C2. For a run with total count \<open>N > 0\<close> (and bin counts in the range of the \<open>int\<close>
  arithmetic of line 786) the reduction stage completes, turns each of the three
  sums \<open>S = \<Sum> c * log(c)\<close> into \<open>H = -S/N + log(N)\<close> and stores
  \<open>MI = H(A) + H(B) - H(A,B)\<close> and \<open>NMI = (H(A) + H(B)) / H(A,B)\<close>, every operation
  being the operation of doubles with its rounding, the quotient the plain division;
  nothing is clamped.
\<close>

theorem ReduceRequestData_entropy_formulas:
  fixes self :: vtkImageMutualInformation
  assumes "NumberOfBins self = (nx, ny)" "0 \<le> nx" "0 \<le> ny" "2 * nx + ny < 2 ^ 31"
      and "N = total_count (nat nx) (nat ny) td" "0 < N"
      and "H_A = entropy_of (S_x (nat nx) (nat ny) td) N"
      and "H_B = entropy_of (S_y (nat nx) (nat ny) td) N"
      and "H_AB = entropy_of (S_xy (nat nx) (nat ny) td) N"
  shows "\<exists>r. ReduceRequestData cast self ue td = Inr r \<and>
             MutualInformation (Self r) = dadd (dadd H_A H_B) (dneg H_AB) \<and>
             NormalizedMutualInformation (Self r) = ddiv (dadd H_A H_B) H_AB \<and>
             ReturnValue r = 1"
  using assms by (simp add: ReduceRequestData_eq)

theorem ReduceRequestData_entropy_formulas_witness:
  "NumberOfBins (vtkImageMutualInformation_ctor\<lparr>NumberOfBins := (2, 2)\<rparr>) = (2, 2) \<and>
   (2::int) * 2 + 2 < 2 ^ 31 \<and>
   total_count (nat 2) (nat 2) [Some [1, 0, 0, 1]] = 2 \<and>
   entropy_of (S_x (nat 2) (nat 2) [Some [1, 0, 0, 1]]) 2 = dlog (Fin 2) \<and>
   entropy_of (S_y (nat 2) (nat 2) [Some [1, 0, 0, 1]]) 2 = dlog (Fin 2) \<and>
   entropy_of (S_xy (nat 2) (nat 2) [Some [1, 0, 0, 1]]) 2 = dlog (Fin 2) \<and>
   (\<exists>r. ReduceRequestData (\<lambda>t c. ScalarPixel (double_of_int c))
           (vtkImageMutualInformation_ctor\<lparr>NumberOfBins := (2, 2)\<rparr>)
           ((0, 1), (0, 1), (0, 0)) [Some [1, 0, 0, 1]] = Inr r \<and>
        MutualInformation (Self r) = dlog (Fin 2) \<and>
        NormalizedMutualInformation (Self r) = Fin 2 \<and>
        ReturnValue r = 1)"
proof -
  have c: "total_count (nat 2) (nat 2) [Some [1, 0, 0, 1]] = 2" by (simp add: eval_22)
  have e: "entropy_of (S_x (nat 2) (nat 2) [Some [1, 0, 0, 1]]) 2 = dlog (Fin 2)"
    "entropy_of (S_y (nat 2) (nat 2) [Some [1, 0, 0, 1]]) 2 = dlog (Fin 2)"
    "entropy_of (S_xy (nat 2) (nat 2) [Some [1, 0, 0, 1]]) 2 = dlog (Fin 2)"
    by (simp_all add: eval_22 entropy_of_zero_2)
  have b: "NumberOfBins (vtkImageMutualInformation_ctor\<lparr>NumberOfBins := (2, 2)\<rparr>) = (2, 2)"
    by simp
  have "\<exists>r. ReduceRequestData (\<lambda>t c. ScalarPixel (double_of_int c))
           (vtkImageMutualInformation_ctor\<lparr>NumberOfBins := (2, 2)\<rparr>)
           ((0, 1), (0, 1), (0, 0)) [Some [1, 0, 0, 1]] = Inr r \<and>
        MutualInformation (Self r)
          = dadd (dadd (dlog (Fin 2)) (dlog (Fin 2))) (dneg (dlog (Fin 2))) \<and>
        NormalizedMutualInformation (Self r)
          = ddiv (dadd (dlog (Fin 2)) (dlog (Fin 2))) (dlog (Fin 2)) \<and>
        ReturnValue r = 1"
    by (rule ReduceRequestData_entropy_formulas[OF b _ _ _ c[symmetric] _
          e(1)[symmetric] e(2)[symmetric] e(3)[symmetric]]) simp_all
  then show ?thesis using b c e by (simp only: metrics_log2) simp
qed

subsection \<open>Runs without in-mask voxels\<close>

lemma in_mask_voxels_Cons:
  "in_mask_voxels (s # ss) = (if fst s then snd s else []) @ in_mask_voxels ss"
  by (simp add: in_mask_voxels_def)

lemma Execute_no_voxels:
  "in_mask_voxels spans = [] \<Longrightarrow>
   vtkImageMutualInformationExecute numBins binOrigin binSpacing spans outPtr = Inr outPtr"
  by (induction spans) (auto simp: in_mask_voxels_Cons)

lemma ExecutePreScaled_no_voxels:
  "in_mask_voxels spans = [] \<Longrightarrow>
   vtkImageMutualInformationExecutePreScaled numBins spans outPtr = Inr outPtr"
  by (induction spans) (auto simp: in_mask_voxels_Cons)

lemma ThreadedRequestData_no_voxels:
  assumes "1 \<le> fst (NumberOfBins self)" "1 \<le> snd (NumberOfBins self)"
      and "(case clip_extent ext (Extent0 inp) (Extent1 inp) of None \<Rightarrow> 0
            | Some e \<Rightarrow> length (in_mask_voxels (Spans inp e))) = 0"
      and "zero_slot (nat (fst (NumberOfBins self) * snd (NumberOfBins self))) data"
  shows "\<exists>es. ThreadedRequestData self inp ext data =
           Inr (replicate (nat (fst (NumberOfBins self) * snd (NumberOfBins self))) 0, es)"
proof -
  have pos: "\<not> fst (NumberOfBins self) * snd (NumberOfBins self) < 1"
    using assms(1,2) by (simp add: mult_le_0_iff not_less int_one_le_iff_zero_less)
  have buf: "(case data of None \<Rightarrow> replicate (nat (fst (NumberOfBins self) * snd (NumberOfBins self))) 0
              | Some d \<Rightarrow> d) = replicate (nat (fst (NumberOfBins self) * snd (NumberOfBins self))) 0"
    using assms(4) by (simp add: zero_slot_def split: option.splits)
  show ?thesis
  proof (cases "clip_extent ext (Extent0 inp) (Extent1 inp)")
    case None
    then show ?thesis using pos buf by (simp add: ThreadedRequestData_def Let_def)
  next
    case (Some e)
    then have "in_mask_voxels (Spans inp e) = []" using assms(3) by simp
    then show ?thesis using pos buf Some
      by (simp add: ThreadedRequestData_def Let_def Execute_no_voxels ExecutePreScaled_no_voxels)
  qed
qed

lemma run_work_no_voxels:
  assumes "1 \<le> fst (NumberOfBins self)" "1 \<le> snd (NumberOfBins self)"
  shows "sum_list (map (\<lambda>w. case clip_extent (snd w) (Extent0 inp) (Extent1 inp) of
                           None \<Rightarrow> 0
                         | Some ext \<Rightarrow> length (in_mask_voxels (Spans inp ext))) work) = 0 \<Longrightarrow>
         \<forall>w\<in>set work. fst w < length slots \<Longrightarrow>
         \<forall>slot\<in>set slots. zero_slot (nat (fst (NumberOfBins self) * snd (NumberOfBins self))) slot \<Longrightarrow>
         \<exists>slots' errs'. run_work self inp work (slots, errs) = Inr (slots', errs') \<and>
           (\<forall>slot\<in>set slots'. zero_slot (nat (fst (NumberOfBins self) * snd (NumberOfBins self))) slot)"
proof (induction work arbitrary: slots errs)
  case Nil
  then show ?case by simp
next
  case (Cons w ws)
  let ?n = "nat (fst (NumberOfBins self) * snd (NumberOfBins self))"
  have w: "fst w < length slots" using Cons.prems(2) by simp
  then have z: "zero_slot ?n (slots ! fst w)" using Cons.prems(3) by simp
  have c0: "(case clip_extent (snd w) (Extent0 inp) (Extent1 inp) of None \<Rightarrow> 0
            | Some e \<Rightarrow> length (in_mask_voxels (Spans inp e))) = 0"
    using Cons.prems(1) by simp
  obtain es where t: "ThreadedRequestData self inp (snd w) (slots ! fst w) = Inr (replicate ?n 0, es)"
    using ThreadedRequestData_no_voxels[OF assms c0 z] by blast
  have a: "sum_list (map (\<lambda>w. case clip_extent (snd w) (Extent0 inp) (Extent1 inp) of
                           None \<Rightarrow> 0
                         | Some ext \<Rightarrow> length (in_mask_voxels (Spans inp ext))) ws) = 0"
    using Cons.prems(1) by simp
  have b: "\<forall>v\<in>set ws. fst v < length (slots[fst w := Some (replicate ?n 0)])"
    using Cons.prems(2) by simp
  have c: "\<forall>slot\<in>set (slots[fst w := Some (replicate ?n 0)]). zero_slot ?n slot"
  proof
    fix slot assume "slot \<in> set (slots[fst w := Some (replicate ?n 0)])"
    then have "slot \<in> insert (Some (replicate ?n 0)) (set slots)"
      using set_update_subset_insert by fastforce
    then show "zero_slot ?n slot" using Cons.prems(3) by (auto simp: zero_slot_def)
  qed
  show ?case using Cons.IH[OF a b c, of "errs @ es"] t by simp
qed

lemma le_fold_max: "x \<in> set xs \<Longrightarrow> x \<le> fold max xs (a::nat)"
proof (induction xs arbitrary: a)
  case Nil
  then show ?case by simp
next
  case (Cons y ys)
  have mono: "b \<le> fold max ys b" for b
    by (induction ys arbitrary: b) (auto intro: order_trans[OF max.cobounded2])
  show ?case
  proof (cases "x = y")
    case True
    then show ?thesis using mono[of "max y a"] by simp
  next
    case False
    then show ?thesis using Cons by simp
  qed
qed

lemma work_items_slots:
  "\<forall>w\<in>set (work_items p inp).
     fst w < (if EnableSMP p then Suc (fold max (map fst (work_items p inp)) 0)
              else NumberOfThreads p)"
proof (cases "EnableSMP p")
  case True
  have "fst w \<le> fold max (map fst (work_items p inp)) 0" if "w \<in> set (work_items p inp)" for w
    using that by (intro le_fold_max) simp
  then show ?thesis using True by (auto simp: less_Suc_eq_le)
next
  case False
  then show ?thesis
    by (auto simp: work_items_def fixed_thread_work_def split: prod.splits if_splits)
qed

lemma sum_list_map_zero:
  "(\<And>x. x \<in> set xs \<Longrightarrow> f x = (0::int)) \<Longrightarrow> sum_list (map f xs) = 0"
  by (induction xs) auto

lemma joint_zero:
  assumes "\<forall>slot\<in>set td. zero_slot (nx * ny) slot" "ix < nx" "iy < ny"
  shows "joint nx td ix iy = 0"
proof -
  have "nx * iy + ix < nx * Suc iy" using assms(2) by simp
  also have "\<dots> \<le> nx * ny" using assms(3) by (simp only: mult_le_mono2 Suc_leI)
  finally have k: "nx * iy + ix < nx * ny" .
  have "(case slot of None \<Rightarrow> 0 | Some d \<Rightarrow> d ! (nx * iy + ix)) = 0" if "slot \<in> set td" for slot
    using assms(1) that k by (auto simp: zero_slot_def split: option.splits)
  then show ?thesis unfolding joint_def cell_def by (rule sum_list_map_zero)
qed

lemma total_count_zero:
  assumes "\<forall>slot\<in>set td. zero_slot (nx * ny) slot"
  shows "total_count nx ny td = 0"
  using joint_zero[OF assms] by (simp add: total_count_def)

text \<open>
  C3. A run whose pieces hold no in-mask voxel pair (an empty mask, or pieces that
  do not meet both images), with at least one bin on each axis and bin counts in the
  range of the \<open>int\<close> arithmetic of line 786 (\<open>2*nx + ny < 2^31\<close>), under either
  strategy and any number of workers, completes with MutualInformation = 0.0 and
  NormalizedMutualInformation = 1.0 exactly and returns 1: the count is zero and the
  branch with the divisions is not entered.
\<close>

theorem RequestData_no_in_mask_voxels:
  assumes "1 \<le> fst (NumberOfBins self)" "1 \<le> snd (NumberOfBins self)"
      and "2 * fst (NumberOfBins self) + snd (NumberOfBins self) < 2 ^ 31"
      and "numberOfInMaskVoxelPairs p inp = 0"
  shows "\<exists>r. RequestData self p inp = Inr r \<and>
             MutualInformation (Self r) = Fin 0 \<and>
             NormalizedMutualInformation (Self r) = Fin 1 \<and>
             ReturnValue r = 1"
proof -
  let ?n = "nat (fst (NumberOfBins self) * snd (NumberOfBins self))"
  let ?slots = "if EnableSMP p then Suc (fold max (map fst (work_items p inp)) 0)
                else NumberOfThreads p"
  have a: "sum_list (map (\<lambda>w. case clip_extent (snd w) (Extent0 inp) (Extent1 inp) of
                           None \<Rightarrow> 0
                         | Some ext \<Rightarrow> length (in_mask_voxels (Spans inp ext)))
             (work_items p inp)) = 0"
    using assms(4) by (simp add: numberOfInMaskVoxelPairs_def)
  have b: "\<forall>w\<in>set (work_items p inp). fst w < length (replicate ?slots (None :: int list option))"
    using work_items_slots[of p inp] by simp
  have c: "\<forall>slot\<in>set (replicate ?slots None). zero_slot ?n slot"
    by (simp add: zero_slot_def)
  obtain td errs where run: "run_work self inp (work_items p inp) (replicate ?slots None, []) = Inr (td, errs)"
    and z: "\<forall>slot\<in>set td. zero_slot ?n slot"
    using run_work_no_voxels[OF assms(1,2) a b c, of "[]"] by blast
  have n: "?n = nat (fst (NumberOfBins self)) * nat (snd (NumberOfBins self))"
    using assms(1,2) by (simp add: nat_mult_distrib)
  have t: "total_count (nat (fst (NumberOfBins self))) (nat (snd (NumberOfBins self))) td = 0"
    using z unfolding n by (rule total_count_zero)
  have "0 \<le> fst (NumberOfBins self)" "0 \<le> snd (NumberOfBins self)" using assms(1,2) by simp_all
  note red = ReduceRequestData_eq[OF this assms(3), of "StaticCast p" "UpdateExtent p" td]
  show ?thesis
    using run t by (simp add: RequestData_def Let_def red)
qed

theorem RequestData_no_in_mask_voxels_witness:
  "1 \<le> fst (NumberOfBins vtkImageMutualInformation_ctor) \<and>
   1 \<le> snd (NumberOfBins vtkImageMutualInformation_ctor) \<and>
   2 * fst (NumberOfBins vtkImageMutualInformation_ctor)
     + snd (NumberOfBins vtkImageMutualInformation_ctor) < 2 ^ 31 \<and>
   numberOfInMaskVoxelPairs (single_piece ((0, 63), (0, 63), (0, 0))) masked_out = 0 \<and>
   (\<exists>r. RequestData vtkImageMutualInformation_ctor (single_piece ((0, 63), (0, 63), (0, 0))) masked_out = Inr r \<and>
        MutualInformation (Self r) = Fin 0 \<and> NormalizedMutualInformation (Self r) = Fin 1 \<and> ReturnValue r = 1)"
proof -
  have a: "1 \<le> fst (NumberOfBins vtkImageMutualInformation_ctor)"
    and b: "1 \<le> snd (NumberOfBins vtkImageMutualInformation_ctor)"
    and i: "2 * fst (NumberOfBins vtkImageMutualInformation_ctor)
              + snd (NumberOfBins vtkImageMutualInformation_ctor) < 2 ^ 31"
    by (simp_all add: vtkImageMutualInformation_ctor_def)
  have c: "numberOfInMaskVoxelPairs (single_piece ((0, 63), (0, 63), (0, 0))) masked_out = 0"
    by (simp add: numberOfInMaskVoxelPairs_def work_items_def fixed_thread_work_def
        single_piece_def masked_out_def extent_nonempty_def clip_extent_def clip_axis_def
        in_mask_voxels_def Let_def)
  show ?thesis using RequestData_no_in_mask_voxels[OF a b i c] a b i c by simp
qed

subsection \<open>An output scalar type without a case\<close>

lemma concat_map_if:
  "concat (map (\<lambda>i. if P i then [f i] else []) xs) = map f (filter P xs)"
  by (induction xs) auto

lemma out_row_unsupported:
  "\<not> vtkTemplateAliasMacro t \<Longrightarrow>
   out_row cast t ue nx td = (\<lambda>iy. if row_in_extent ue iy then [(\<lambda>iy. None) iy] else [])"
  by (rule ext) (simp add: out_row_def)

lemma err_row_unsupported:
  "\<not> vtkTemplateAliasMacro t \<Longrightarrow>
   err_row t ue = (\<lambda>iy. if row_in_extent ue iy
                      then [(\<lambda>iy. ''Execute: Unknown output ScalarType'') iy] else [])"
  by (rule ext) (simp add: err_row_def)

lemma reduce_22:
  "ReduceRequestData cast
       (vtkImageMutualInformation_ctor\<lparr>NumberOfBins := (2, 2), OutputScalarType := t\<rparr>)
       ((0, 1), (0, 1), (0, 0)) [Some [1, 0, 0, 1]] =
     Inr \<lparr>Self = vtkImageMutualInformation_ctor\<lparr>NumberOfBins := (2, 2), OutputScalarType := t,
               MutualInformation := dlog (Fin 2), NormalizedMutualInformation := Fin 2\<rparr>,
      Output = out_row cast t ((0, 1), (0, 1), (0, 0)) 2 [Some [1, 0, 0, 1]] 0
                 @ out_row cast t ((0, 1), (0, 1), (0, 0)) 2 [Some [1, 0, 0, 1]] 1,
      Diagnostics = err_row t ((0, 1), (0, 1), (0, 0)) 0 @ err_row t ((0, 1), (0, 1), (0, 0)) 1,
      ReturnValue = 1\<rparr>"
  by (simp add: ReduceRequestData_eq vtkImageMutualInformation_ctor_def eval_22
      entropy_of_zero_2 metrics_log2 upt2)

text \<open>
  C8 as stated fails: with the output type VTK_BIT, which has no case in the switch
  of lines 835-842, the reduction of a histogram with two voxel pairs reports its
  diagnostics, is not aborted, returns 1 and replaces the scalars of the object
  (0.0 and 0.0 after the constructor) by MI = log 2 and NMI = 2.
\<close>

theorem ReduceRequestData_unsupported_output_counterexample:
  "\<not> vtkTemplateAliasMacro VTK_BIT \<and>
   MutualInformation vtkImageMutualInformation_ctor = Fin 0 \<and>
   NormalizedMutualInformation vtkImageMutualInformation_ctor = Fin 0 \<and>
   ReduceRequestData (\<lambda>t c. ScalarPixel (double_of_int c))
       (vtkImageMutualInformation_ctor\<lparr>NumberOfBins := (2, 2), OutputScalarType := VTK_BIT\<rparr>)
       ((0, 1), (0, 1), (0, 0)) [Some [1, 0, 0, 1]] =
     Inr \<lparr>Self = vtkImageMutualInformation_ctor\<lparr>NumberOfBins := (2, 2),
               OutputScalarType := VTK_BIT,
               MutualInformation := dlog (Fin 2), NormalizedMutualInformation := Fin 2\<rparr>,
      Output = [None, None],
      Diagnostics = [''Execute: Unknown output ScalarType'', ''Execute: Unknown output ScalarType''],
      ReturnValue = 1\<rparr>"
  by (simp only: reduce_22)
    (simp add: out_row_def err_row_def row_in_extent_def vtkTemplateAliasMacro_def
      vtkImageMutualInformation_ctor_def)

text \<open>
  C8, amended. If the output scalar type has no case in the switch (and the bin
  counts are not negative and in the range of the \<open>int\<close> arithmetic of line 786,
  \<open>2*nx + ny < 2^31\<close>), the reduction stage reports one diagnostic for every histogram
  row inside the update extent and writes none of these rows, but nothing is
  aborted: it returns 1, and MutualInformation and NormalizedMutualInformation are
  computed and stored exactly as they are for a supported output type.
\<close>

theorem ReduceRequestData_unsupported_output:
  assumes "\<not> vtkTemplateAliasMacro (OutputScalarType self)"
      and "0 \<le> fst (NumberOfBins self)" "0 \<le> snd (NumberOfBins self)"
      and "2 * fst (NumberOfBins self) + snd (NumberOfBins self) < 2 ^ 31"
  shows "\<exists>r r'. ReduceRequestData cast self ue td = Inr r
       \<and> ReduceRequestData cast (self\<lparr>OutputScalarType := VTK_FLOAT\<rparr>) ue td = Inr r'
       \<and> MutualInformation (Self r) = MutualInformation (Self r')
       \<and> NormalizedMutualInformation (Self r) = NormalizedMutualInformation (Self r')
       \<and> ReturnValue r = 1
       \<and> Output r = map (\<lambda>iy. None) (filter (row_in_extent ue) [0..<nat (snd (NumberOfBins self))])
       \<and> Diagnostics r =
           map (\<lambda>iy. ''Execute: Unknown output ScalarType'')
             (filter (row_in_extent ue) [0..<nat (snd (NumberOfBins self))])"
proof -
  note a = ReduceRequestData_eq[OF assms(2-4), of cast ue td]
  have "0 \<le> fst (NumberOfBins (self\<lparr>OutputScalarType := VTK_FLOAT\<rparr>))"
    "0 \<le> snd (NumberOfBins (self\<lparr>OutputScalarType := VTK_FLOAT\<rparr>))"
    "2 * fst (NumberOfBins (self\<lparr>OutputScalarType := VTK_FLOAT\<rparr>))
       + snd (NumberOfBins (self\<lparr>OutputScalarType := VTK_FLOAT\<rparr>)) < 2 ^ 31"
    using assms(2-4) by simp_all
  note b = ReduceRequestData_eq[OF this, of cast ue td]
  show ?thesis
    unfolding a b using assms(1)
    by simp (simp only: out_row_unsupported err_row_unsupported concat_map_if simp_thms)
qed

theorem ReduceRequestData_unsupported_output_witness:
  "\<not> vtkTemplateAliasMacro (OutputScalarType
       (vtkImageMutualInformation_ctor\<lparr>NumberOfBins := (2, 2), OutputScalarType := VTK_BIT\<rparr>)) \<and>
   0 \<le> fst (NumberOfBins
       (vtkImageMutualInformation_ctor\<lparr>NumberOfBins := (2, 2), OutputScalarType := VTK_BIT\<rparr>)) \<and>
   0 \<le> snd (NumberOfBins
       (vtkImageMutualInformation_ctor\<lparr>NumberOfBins := (2, 2), OutputScalarType := VTK_BIT\<rparr>)) \<and>
   2 * fst (NumberOfBins
       (vtkImageMutualInformation_ctor\<lparr>NumberOfBins := (2, 2), OutputScalarType := VTK_BIT\<rparr>))
     + snd (NumberOfBins
       (vtkImageMutualInformation_ctor\<lparr>NumberOfBins := (2, 2), OutputScalarType := VTK_BIT\<rparr>))
     < 2 ^ 31 \<and>
   (\<exists>r r'. ReduceRequestData (\<lambda>t c. ScalarPixel (double_of_int c))
          (vtkImageMutualInformation_ctor\<lparr>NumberOfBins := (2, 2), OutputScalarType := VTK_BIT\<rparr>)
          ((0, 1), (0, 1), (0, 0)) [Some [1, 0, 0, 1]] = Inr r \<and>
      ReduceRequestData (\<lambda>t c. ScalarPixel (double_of_int c))
          (vtkImageMutualInformation_ctor\<lparr>NumberOfBins := (2, 2), OutputScalarType := VTK_FLOAT\<rparr>)
          ((0, 1), (0, 1), (0, 0)) [Some [1, 0, 0, 1]] = Inr r' \<and>
      MutualInformation (Self r) = dlog (Fin 2) \<and>
      MutualInformation (Self r') = dlog (Fin 2) \<and>
      NormalizedMutualInformation (Self r) = Fin 2 \<and>
      NormalizedMutualInformation (Self r') = Fin 2 \<and>
      ReturnValue r = 1 \<and>
      Output r = [None, None] \<and>
      Output r' = [Some [ScalarPixel (Fin 1), ScalarPixel (Fin 0)],
                   Some [ScalarPixel (Fin 0), ScalarPixel (Fin 1)]])"
  using ReduceRequestData_unsupported_output[of
      "vtkImageMutualInformation_ctor\<lparr>NumberOfBins := (2, 2), OutputScalarType := VTK_BIT\<rparr>"
      "\<lambda>t c. ScalarPixel (double_of_int c)" "((0, 1), (0, 1), (0, 0))" "[Some [1, 0, 0, 1]]"]
  by (simp add: reduce_22 out_row_def err_row_def row_in_extent_def vtkTemplateAliasMacro_def
      vtkImageMutualInformationCopyRow_def joint_def cell_def upt2)

subsection \<open>All voxel pairs in one cell\<close>

lemma run_4x4:
  "run_work (vtkImageMutualInformation_ctor\<lparr>NumberOfBins := (2, 2)\<rparr>) scenario_4x4
     (work_items (single_piece ((0, 1), (0, 1), (0, 0))) scenario_4x4) ([None], [])
   = Inr ([Some [0, 0, 16, 0]], [])"
  by (simp add: work_items_def fixed_thread_work_def single_piece_def scenario_4x4_def
      vtkImageMutualInformation_ctor_def extent_nonempty_def ThreadedRequestData_def
      clip_extent_def clip_axis_def prescaled_selected_def vtkMath_Floor_def
      dadd_def dmul_def is_zero_def zero_of_def rnd_numeral_half
      ExecutePreScaled_voxel_def increment_def row_offset_def Let_def numeral_eq_Suc)

text \<open>The logarithm of 16 as the library returns it: a double between 1 and 15.\<close>

lemma dlog_16: "\<exists>l. dlog (Fin 16) = Fin l \<and> 1 \<le> l \<and> l \<le> 15 \<and> is_double l"
proof -
  have "exp (1::real) \<le> 16" using exp_le by linarith
  then have lo: "1 \<le> ln (16::real)" by (simp add: ln_ge_iff)
  have hi: "ln (16::real) \<le> 15" using ln_le_minus_one[of "16::real"] by simp
  have "is_double 15" using is_double_int[of 15] by simp
  then obtain l where l: "rnd (ln 16) = Fin l" "0 \<le> l" "l \<le> 15"
    using rnd_le[of "ln 16" 15] lo hi by auto
  have "is_double 1" using is_double_int[of 1] by simp
  then have "rnd (ln 16) = PInf \<or> (\<exists>r. rnd (ln 16) = Fin r \<and> 1 \<le> r)"
    using lo by (intro rnd_ge) simp_all
  then have "1 \<le> l" using l(1) by auto
  moreover have "is_double l" using l(1) by (rule rnd_is_double)
  ultimately show ?thesis using l by (simp add: dlog_def)
qed

text \<open>
  With all 16 voxel pairs in one cell the sum \<open>S\<close> is \<open>16 * log 16\<close>, a product by a
  power of two and so exact, and the entropy \<open>-S/16 + log 16\<close> is the positive zero.
\<close>

lemma entropy_of_single_16: "entropy_of (plogp_add (Fin 0) 16) 16 = Fin 0"
proof -
  obtain l where l: "dlog (Fin 16) = Fin l" "1 \<le> l" "l \<le> 15" "is_double l"
    using dlog_16 by blast
  have b: "\<bar>l\<bar> \<le> 2 ^ 1000"
  proof -
    have "\<bar>l\<bar> \<le> 15" using l by simp
    also have "(15::real) \<le> 2 ^ 1000" by simp
    finally show ?thesis .
  qed
  have d: "double_of_int 16 = Fin 16" using double_of_int_small[of 16] by simp
  have m: "dmul (Fin 16) (Fin l) = Fin (16 * l)"
    using l(2) rnd_twice(4)[OF l(4) b] by (simp add: dmul_def)
  have s: "plogp_add (Fin 0) 16 = Fin (16 * l)"
    using l(2) rnd_twice(4)[OF l(4) b] by (simp add: plogp_add_def d l(1) m dadd_def)
  have n: "rnd (- l) = Fin (- l)" using rnd_exact[OF is_double_neg[OF l(4)]] .
  have q: "ddiv (dneg (Fin (16 * l))) (Fin 16) = Fin (- l)"
    using l(2) n by (simp add: ddiv_def is_zero_def)
  show ?thesis
    unfolding entropy_of_def s d l(1) q using l(2) by (simp add: dadd_def)
qed

lemma eval_4x4:
  "total_count 2 2 [Some [0, 0, 16, 0]] = 16"
  "S_x 2 2 [Some [0, 0, 16, 0]] = plogp_add (Fin 0) 16"
  "S_y 2 2 [Some [0, 0, 16, 0]] = plogp_add (Fin 0) 16"
  "S_xy 2 2 [Some [0, 0, 16, 0]] = plogp_add (Fin 0) 16"
  "map (\<lambda>ix. joint 2 [Some [0, 0, 16, 0]] ix 0) [0..<2] = [0, 0]"
  "map (\<lambda>ix. joint 2 [Some [0, 0, 16, 0]] ix (Suc 0)) [0..<2] = [16, 0]"
  by (simp_all add: total_count_def S_x_def S_y_def S_xy_def joint_def cell_def sum2 upt2
      entropy_sum_def)

lemma scenario_4x4_result:
  "RequestData (vtkImageMutualInformation_ctor\<lparr>NumberOfBins := (2, 2)\<rparr>)
       (single_piece ((0, 1), (0, 1), (0, 0))) scenario_4x4 =
     Inr \<lparr>Self = vtkImageMutualInformation_ctor\<lparr>NumberOfBins := (2, 2),
                 MutualInformation := Fin 0, NormalizedMutualInformation := NaN\<rparr>,
          Output = [Some [ScalarPixel (Fin 0), ScalarPixel (Fin 0)],
                    Some [ScalarPixel (Fin 16), ScalarPixel (Fin 0)]],
          Diagnostics = [], ReturnValue = 1\<rparr>"
proof -
  have d: "double_of_int 16 = Fin 16" using double_of_int_small[of 16] by simp
  have r: "ReduceRequestData (\<lambda>t c. ScalarPixel (double_of_int c))
             (vtkImageMutualInformation_ctor\<lparr>NumberOfBins := (2, 2)\<rparr>)
             ((0, 1), (0, 1), (0, 0)) [Some [0, 0, 16, 0]] =
           Inr \<lparr>Self = vtkImageMutualInformation_ctor\<lparr>NumberOfBins := (2, 2),
                   MutualInformation := Fin 0, NormalizedMutualInformation := NaN\<rparr>,
                Output = [Some [ScalarPixel (Fin 0), ScalarPixel (Fin 0)],
                          Some [ScalarPixel (Fin 16), ScalarPixel (Fin 0)]],
                Diagnostics = [], ReturnValue = 1\<rparr>"
    by (simp add: ReduceRequestData_eq eval_4x4 entropy_of_single_16)
      (simp add: vtkImageMutualInformation_ctor_def dadd_def ddiv_def is_zero_def d
        out_row_def err_row_def row_in_extent_def vtkTemplateAliasMacro_def
        vtkImageMutualInformationCopyRow_def upt2 joint_def cell_def)
  show ?thesis
    using run_4x4 unfolding RequestData_def Let_def
    by (simp add: single_piece_def r)
qed

text \<open>
  C4. The claim: for two 4 x 4 x 1 byte images, A all zeros and B all ones, 2 bins on
  each axis and the identity mapping, the joint histogram has the single nonzero
  cell (0, 1) with count 16, MI = 0 and NMI = 1.0 by a guard against the division by
  zero. The histogram and MI are as claimed, but the only guard is \<open>if (count)\<close>
  (line 895): the count is 16, the three entropies are \<open>-(16 * log 16)/16 + log 16 = 0\<close>
  (exactly so in binary floating point as well, 16 being a power of two), and line
  908 divides \<open>0.0\<close> by \<open>0.0\<close>: NormalizedMutualInformation is NaN.
\<close>

theorem RequestData_scenario_4x4:
  "prescaled_selected (2, 2) (Fin 0, Fin 0) (Fin 1, Fin 1) VTK_UNSIGNED_CHAR VTK_UNSIGNED_CHAR \<and>
   numberOfInMaskVoxelPairs (single_piece ((0, 1), (0, 1), (0, 0))) scenario_4x4 = 16 \<and>
   RequestData (vtkImageMutualInformation_ctor\<lparr>NumberOfBins := (2, 2)\<rparr>)
       (single_piece ((0, 1), (0, 1), (0, 0))) scenario_4x4 =
     Inr \<lparr>Self = vtkImageMutualInformation_ctor\<lparr>NumberOfBins := (2, 2),
                 MutualInformation := Fin 0, NormalizedMutualInformation := NaN\<rparr>,
          Output = [Some [ScalarPixel (Fin 0), ScalarPixel (Fin 0)],
                    Some [ScalarPixel (Fin 16), ScalarPixel (Fin 0)]],
          Diagnostics = [], ReturnValue = 1\<rparr>"
proof -
  have a: "prescaled_selected (2, 2) (Fin 0, Fin 0) (Fin 1, Fin 1) VTK_UNSIGNED_CHAR VTK_UNSIGNED_CHAR"
    by (simp add: prescaled_selected_def vtkMath_Floor_def dadd_def dmul_def is_zero_def
        zero_of_def rnd_numeral_half Let_def)
  have b: "numberOfInMaskVoxelPairs (single_piece ((0, 1), (0, 1), (0, 0))) scenario_4x4 = 16"
    by (simp add: numberOfInMaskVoxelPairs_def work_items_def fixed_thread_work_def
        single_piece_def scenario_4x4_def extent_nonempty_def clip_extent_def clip_axis_def
        in_mask_voxels_def numeral_eq_Suc Let_def)
  show ?thesis using a b scenario_4x4_result by simp
qed

subsection \<open>Swapping the two images\<close>














































subsection \<open>The pre-scaled kernel under the identity mapping\<close>

text \<open>
  With bin origin 0 and bin spacing 1 the two kernels agree on byte images, whatever
  the numbers of bins: a byte \<open>k\<close> goes to the bin \<open>min k (numBins - 1)\<close> in both.
\<close>

lemma cast_int_half:
  assumes "0 \<le> m" "m < 2 ^ 31"
  shows "static_cast_int (dadd (Fin (real_of_int m)) (Fin (1/2))) = Some m"
proof -
  have "\<bar>2 * m + 1\<bar> < 2 ^ 53" using assms by simp
  then have "rnd (real_of_int (2 * m + 1) / 2) = Fin (real_of_int (2 * m + 1) / 2)"
    by (rule rnd_half)
  moreover have e: "real_of_int (2 * m + 1) / 2 = real_of_int m + 1/2" by simp
  ultimately have h: "rnd (real_of_int m + 1/2) = Fin (real_of_int m + 1/2)"
    by (simp only: e)
  have f: "\<lfloor>real_of_int m + 1/2\<rfloor> = m" by linarith
  have p: "0 < real_of_int m + 1/2" using assms(1) by simp
  have "dadd (Fin (real_of_int m)) (Fin (1/2)) = rnd (real_of_int m + 1/2)"
    using p unfolding dadd_def by simp
  then have d: "dadd (Fin (real_of_int m)) (Fin (1/2)) = Fin (real_of_int m + 1/2)"
    by (simp only: h)
  have "\<lfloor>real_of_int m + 1/2\<rfloor> < 2 ^ 31" using assms(2) by (simp only: f)
  then have "static_cast_int (Fin (real_of_int m + 1/2)) = Some \<lfloor>real_of_int m + 1/2\<rfloor>"
    using p by (intro static_cast_int_Fin) simp_all
  then show ?thesis by (simp only: d f)
qed

lemma scaled_int:
  assumes "0 \<le> k" "k < 2 ^ 53"
  shows "dmul (dadd (Fin (real_of_int k)) (dneg (Fin 0))) (ddiv (Fin 1) (Fin 1))
           = Fin (real_of_int k)"
proof -
  have "\<bar>k\<bar> < 2 ^ 53" using assms by simp
  then have r: "rnd (real_of_int k) = Fin (real_of_int k)" by (rule rnd_int)
  show ?thesis
    by (simp add: dadd_def dmul_def ddiv_def is_zero_def zero_of_def r)
qed

lemma clamp_int:
  assumes "1 \<le> n" "0 \<le> k"
  shows "clamp_dbl (Fin (real_of_int k)) (Fin (real_of_int (n - 1)))
           = Fin (real_of_int (if k < n - 1 then k else n - 1))"
  using assms by (auto simp: clamp_dbl_def dgt_def dlt_def)

lemma bin_coordinate_byte:
  assumes "1 \<le> n" "n < 2 ^ 31"
  shows "bin_coordinate (to_double (UCharPixel a)) (dneg (Fin 0)) (ddiv (Fin 1) (Fin 1))
           (double_of_int (n - 1)) = Some (if uint a < n - 1 then uint a else n - 1)"
proof -
  define k where "k = uint a"
  let ?k = "if k < n - 1 then k else n - 1"
  have k: "0 \<le> k" "k < 2 ^ 53"
  proof -
    show "0 \<le> k" by (simp add: k_def)
    have "k < 2 ^ 8" using uint_bounded[of a] by (simp add: k_def)
    then show "k < 2 ^ 53" by simp
  qed
  have t: "to_double (UCharPixel a) = Fin (real_of_int k)" by (simp add: k_def)
  have m: "double_of_int (n - 1) = Fin (real_of_int (n - 1))"
    using assms by (intro double_of_int_int32) simp_all
  have "static_cast_int (dadd (Fin (real_of_int ?k)) (Fin (1/2))) = Some ?k"
    using assms k(1) by (intro cast_int_half) auto
  then have "bin_coordinate (Fin (real_of_int k)) (dneg (Fin 0)) (ddiv (Fin 1) (Fin 1))
           (Fin (real_of_int (n - 1))) = Some ?k"
    by (simp only: bin_coordinate_clamp scaled_int[OF k] clamp_int[OF assms(1) k(1)])
  then show ?thesis unfolding t m k_def .
qed

lemma PreScaled_voxel_identity:
  assumes "1 \<le> nx" "nx < 2 ^ 31" "1 \<le> ny" "ny < 2 ^ 31"
      and "is_uchar (fst v)" "is_uchar (snd v)"
  shows "ExecutePreScaled_voxel (nx, ny) v outPtr =
         Execute_voxel (nx, ny) (Fin 0, Fin 0) (Fin 1, Fin 1) v outPtr"
proof -
  obtain a b where v: "v = (UCharPixel a, UCharPixel b)"
    using assms(5,6) by (cases v; cases "fst v"; cases "snd v") auto
  show ?thesis
    unfolding v ExecutePreScaled_voxel_def Execute_voxel_def
    using bin_coordinate_byte[OF assms(1,2), of a] bin_coordinate_byte[OF assms(3,4), of b]
    by (simp add: Let_def)
qed

lemma PreScaled_span_identity:
  assumes "1 \<le> nx" "nx < 2 ^ 31" "1 \<le> ny" "ny < 2 ^ 31"
  shows "list_all (\<lambda>v. is_uchar (fst v) \<and> is_uchar (snd v)) vs \<Longrightarrow>
         ExecutePreScaled_span (nx, ny) vs outPtr =
         Execute_span (nx, ny) (Fin 0, Fin 0) (Fin 1, Fin 1) vs outPtr"
proof (induction vs arbitrary: outPtr)
  case Nil
  show ?case by simp
next
  case (Cons v vs)
  then show ?case using PreScaled_voxel_identity[OF assms, of v outPtr]
    by (simp split: sum.splits)
qed

lemma prescaled_eq_generic_identity:
  assumes "1 \<le> nx" "nx < 2 ^ 31" "1 \<le> ny" "ny < 2 ^ 31"
  shows "uchar_spans spans \<Longrightarrow>
         vtkImageMutualInformationExecutePreScaled (nx, ny) spans outPtr =
         vtkImageMutualInformationExecute (nx, ny) (Fin 0, Fin 0) (Fin 1, Fin 1) spans outPtr"
proof (induction spans arbitrary: outPtr)
  case Nil
  show ?case by simp
next
  case (Cons s ss)
  then show ?case using PreScaled_span_identity[OF assms, of "snd s" outPtr]
    by (simp add: uchar_spans_def split: sum.splits)
qed

subsection \<open>The sum of the cells when the rows fit\<close>

text \<open>
  When \<open>numBins[1] \<le> numBins[0]\<close> every offset \<open>yi * numBins[1] + xi\<close> stays inside
  the buffer, each in-mask voxel pair adds one to exactly one cell, and the merged
  histogram sums to the number of in-mask voxel pairs, under both strategies and for
  any number of workers (input types with a case in the switches).
\<close>

lemma sum_list_increment:
  fixes h :: "int list"
  assumes "k < length h"
  shows "sum_list (h[k := h ! k + 1]) = sum_list h + 1"
proof -
  have "h = take k h @ h ! k # drop (Suc k) h" using assms by (simp add: id_take_nth_drop)
  then have "sum_list h = sum_list (take k h) + h ! k + sum_list (drop (Suc k) h)"
    by (metis add.assoc sum_list.Cons sum_list.append)
  moreover have "h[k := h ! k + 1] = take k h @ (h ! k + 1) # drop (Suc k) h"
    using assms by (simp add: upd_conv_take_nth_drop)
  ultimately show ?thesis by simp
qed

lemma increment_sum:
  assumes "increment k h = Inr h'"
  shows "sum_list h' = sum_list h + 1 \<and> length h' = length h"
proof -
  have k: "0 \<le> k" "k < int (length h)" and h': "h' = h[nat k := h ! nat k + 1]"
    using assms by (auto simp: increment_def split: if_splits)
  have "nat k < length h" using k by simp
  then show ?thesis using sum_list_increment h' by simp
qed

lemma offset_in_buffer:
  fixes nx ny xi yi :: int
  assumes "1 \<le> ny" "ny \<le> nx" "0 \<le> xi" "xi < nx" "0 \<le> yi" "yi < ny"
  shows "0 \<le> yi * ny + xi" "yi * ny + xi < nx * ny" "yi * ny \<le> nx * nx"
proof -
  show "0 \<le> yi * ny + xi" using assms by simp
  have a: "yi * ny \<le> (ny - 1) * ny" using assms by (intro mult_right_mono) simp_all
  have b: "(ny - 1) * ny \<le> (ny - 1) * nx" using assms by (intro mult_left_mono) simp_all
  have "yi * ny + xi \<le> (ny - 1) * nx + (nx - 1)" using a b assms(4) by simp
  also have "\<dots> < nx * ny" by (simp add: algebra_simps)
  finally show "yi * ny + xi < nx * ny" .
  have "(ny - 1) * nx \<le> nx * nx" using assms by (intro mult_right_mono) simp_all
  then show "yi * ny \<le> nx * nx" using a b by simp
qed

lemma Execute_voxel_sum:
  assumes "1 \<le> ny" "ny \<le> nx" "nx * nx < 2 ^ 31" "length h = nat (nx * ny)"
  shows "\<exists>h'. Execute_voxel (nx, ny) org sp v h = Inr h' \<and>
              sum_list h' = sum_list h + 1 \<and> length h' = length h"
proof -
  have nx1: "1 \<le> nx" using assms(1,2) by simp
  have ltx: "nx < 2 ^ 31" using square_bound[OF nx1 assms(3)] .
  have lty: "ny < 2 ^ 31" using ltx assms(2) by simp
  obtain xi where xi: "bin_coordinate (to_double (fst v)) (dneg (fst org)) (ddiv (Fin 1) (fst sp))
      (double_of_int (nx - 1)) = Some xi" "0 \<le> xi" "xi \<le> nx - 1"
    using bin_coordinate_range[OF nx1 ltx] by blast
  obtain yi where yi: "bin_coordinate (to_double (snd v)) (dneg (snd org)) (ddiv (Fin 1) (snd sp))
      (double_of_int (ny - 1)) = Some yi" "0 \<le> yi" "yi \<le> ny - 1"
    using bin_coordinate_range[OF assms(1) lty] by blast
  have b: "xi < nx" "yi < ny" using xi(3) yi(3) by simp_all
  note o = offset_in_buffer[OF assms(1,2) xi(2) b(1) yi(2) b(2)]
  have "0 \<le> yi * ny" using yi(2) assms(1) by simp
  then have off: "row_offset yi ny = Inr (yi * ny)"
    using o(3) assms(3) by (simp add: row_offset_def)
  have "yi * ny + xi < int (length h)" using o(2) assms(4) nx1 assms(1) by simp
  then obtain h' where h': "increment (yi * ny + xi) h = Inr h'"
    using o(1) by (simp add: increment_def)
  have "Execute_voxel (nx, ny) org sp v h = Inr h'"
    using xi(1) yi(1) off h' by (simp add: Execute_voxel_def)
  then show ?thesis using increment_sum[OF h'] by simp
qed

lemma ExecutePreScaled_voxel_sum:
  assumes "ExecutePreScaled_voxel numBins v h = Inr h'"
  shows "sum_list h' = sum_list h + 1 \<and> length h' = length h"
proof -
  obtain k where "increment k h = Inr h'"
    using assms
    by (auto simp: ExecutePreScaled_voxel_def Let_def split: pixel.splits sum.splits prod.splits)
  then show ?thesis by (rule increment_sum)
qed

lemma Execute_span_sum:
  assumes "1 \<le> ny" "ny \<le> nx" "nx * nx < 2 ^ 31"
  shows "length h = nat (nx * ny) \<Longrightarrow>
         \<exists>h'. Execute_span (nx, ny) org sp vs h = Inr h' \<and>
              sum_list h' = sum_list h + int (length vs) \<and> length h' = length h"
proof (induction vs arbitrary: h)
  case Nil
  show ?case by simp
next
  case (Cons v vs)
  obtain h1 where 1: "Execute_voxel (nx, ny) org sp v h = Inr h1"
      "sum_list h1 = sum_list h + 1" "length h1 = length h"
    using Execute_voxel_sum[OF assms Cons.prems] by blast
  have "length h1 = nat (nx * ny)" using 1(3) Cons.prems by simp
  from Cons.IH[OF this] 1 show ?case by auto
qed

lemma Execute_sum:
  assumes "1 \<le> ny" "ny \<le> nx" "nx * nx < 2 ^ 31"
  shows "length h = nat (nx * ny) \<Longrightarrow>
         \<exists>h'. vtkImageMutualInformationExecute (nx, ny) org sp spans h = Inr h' \<and>
              sum_list h' = sum_list h + int (length (in_mask_voxels spans)) \<and>
              length h' = length h"
proof (induction spans arbitrary: h)
  case Nil
  show ?case by (simp add: in_mask_voxels_def)
next
  case (Cons s ss)
  show ?case
  proof (cases "fst s")
    case True
    obtain h1 where 1: "Execute_span (nx, ny) org sp (snd s) h = Inr h1"
        "sum_list h1 = sum_list h + int (length (snd s))" "length h1 = length h"
      using Execute_span_sum[OF assms Cons.prems] by blast
    have "length h1 = nat (nx * ny)" using 1(3) Cons.prems by simp
    from Cons.IH[OF this] 1 True show ?thesis by (auto simp: in_mask_voxels_Cons)
  next
    case False
    then show ?thesis using Cons.IH[OF Cons.prems] by (simp add: in_mask_voxels_Cons)
  qed
qed

lemma ExecutePreScaled_span_sum:
  "ExecutePreScaled_span numBins vs h = Inr h' \<Longrightarrow>
   sum_list h' = sum_list h + int (length vs) \<and> length h' = length h"
proof (induction vs arbitrary: h)
  case Nil
  then show ?case by simp
next
  case (Cons v vs)
  obtain h1 where 1: "ExecutePreScaled_voxel numBins v h = Inr h1"
      "ExecutePreScaled_span numBins vs h1 = Inr h'"
    using Cons.prems by (auto split: sum.splits)
  show ?case using Cons.IH[OF 1(2)] ExecutePreScaled_voxel_sum[OF 1(1)] by simp
qed

lemma ExecutePreScaled_sum:
  "vtkImageMutualInformationExecutePreScaled numBins spans h = Inr h' \<Longrightarrow>
   sum_list h' = sum_list h + int (length (in_mask_voxels spans)) \<and> length h' = length h"
proof (induction spans arbitrary: h)
  case Nil
  then show ?case by (simp add: in_mask_voxels_def)
next
  case (Cons s ss)
  show ?case
  proof (cases "fst s")
    case True
    obtain h1 where 1: "ExecutePreScaled_span numBins (snd s) h = Inr h1"
        "vtkImageMutualInformationExecutePreScaled numBins ss h1 = Inr h'"
      using Cons.prems True by (auto split: sum.splits)
    show ?thesis using Cons.IH[OF 1(2)] ExecutePreScaled_span_sum[OF 1(1)] True
      by (simp add: in_mask_voxels_Cons)
  next
    case False
    then show ?thesis using Cons.IH Cons.prems by (simp add: in_mask_voxels_Cons)
  qed
qed

lemma ThreadedRequestData_sum:
  assumes "NumberOfBins self = (nx, ny)" "1 \<le> ny" "ny \<le> nx" "nx * nx < 2 ^ 31"
      and "vtkTemplateAliasMacro (ScalarType0 inp)" "vtkTemplateAliasMacro (ScalarType1 inp)"
      and "slot_sized (nat (nx * ny)) data"
      and "ThreadedRequestData self inp ext data = Inr (h1, es)"
  shows "sum_list h1 = slot_sum data + int (piece_count inp ext) \<and> length h1 = nat (nx * ny)"
proof -
  have pos: "\<not> nx * ny < 1" using assms(2,3)
    by (simp add: not_less mult_le_0_iff int_one_le_iff_zero_less)
  define h where "h = (case data of None \<Rightarrow> replicate (nat (nx * ny)) 0 | Some d \<Rightarrow> d)"
  have h: "length h = nat (nx * ny)" "sum_list h = slot_sum data"
    using assms(7)
    by (auto simp: h_def slot_sized_def slot_sum_def sum_list_replicate split: option.splits)
  show ?thesis
  proof (cases "clip_extent ext (Extent0 inp) (Extent1 inp)")
    case None
    then show ?thesis using assms(1,8) pos h
      by (auto simp: ThreadedRequestData_def Let_def piece_count_def h_def)
  next
    case (Some e)
    show ?thesis
    proof (cases "prescaled_selected (nx, ny) (BinOrigin self) (BinSpacing self)
                    (ScalarType0 inp) (ScalarType1 inp)")
      case True
      then have "vtkImageMutualInformationExecutePreScaled (nx, ny) (Spans inp e) h = Inr h1"
        using assms(1,8) pos Some
        by (auto simp: ThreadedRequestData_def Let_def h_def split: sum.splits)
      then show ?thesis using ExecutePreScaled_sum h Some by (simp add: piece_count_def)
    next
      case False
      obtain g where g: "vtkImageMutualInformationExecute (nx, ny) (BinOrigin self)
            (BinSpacing self) (Spans inp e) h = Inr g"
          "sum_list g = sum_list h + int (length (in_mask_voxels (Spans inp e)))"
          "length g = length h"
        using Execute_sum[OF assms(2,3,4) h(1)] by blast
      have "h1 = g" using assms(1,5,6,8) pos Some False g(1)
        by (auto simp: ThreadedRequestData_def Let_def h_def)
      then show ?thesis using g h Some by (simp add: piece_count_def)
    qed
  qed
qed

lemma sum_list_map_update:
  fixes f :: "'a \<Rightarrow> int"
  assumes "i < length xs"
  shows "sum_list (map f (xs[i := y])) = sum_list (map f xs) - f (xs ! i) + f y"
proof -
  have 1: "xs = take i xs @ xs ! i # drop (Suc i) xs" using assms by (simp add: id_take_nth_drop)
  have 2: "xs[i := y] = take i xs @ y # drop (Suc i) xs" using assms by (simp add: upd_conv_take_nth_drop)
  have "sum_list (map f xs) = sum_list (map f (take i xs)) + f (xs ! i) + sum_list (map f (drop (Suc i) xs))"
    by (subst 1) simp
  moreover have "sum_list (map f (xs[i := y])) =
      sum_list (map f (take i xs)) + f y + sum_list (map f (drop (Suc i) xs))"
    by (subst 2) simp
  ultimately show ?thesis by simp
qed

lemma run_work_sum:
  assumes "NumberOfBins self = (nx, ny)" "1 \<le> ny" "ny \<le> nx" "nx * nx < 2 ^ 31"
      and "vtkTemplateAliasMacro (ScalarType0 inp)" "vtkTemplateAliasMacro (ScalarType1 inp)"
  shows "\<forall>slot\<in>set slots. slot_sized (nat (nx * ny)) slot \<Longrightarrow>
         \<forall>w\<in>set work. fst w < length slots \<Longrightarrow>
         run_work self inp work (slots, errs) = Inr (td, errs1) \<Longrightarrow>
         sum_list (map slot_sum td) =
           sum_list (map slot_sum slots) + int (sum_list (map (\<lambda>w. piece_count inp (snd w)) work)) \<and>
         (\<forall>slot\<in>set td. slot_sized (nat (nx * ny)) slot)"
proof (induction work arbitrary: slots errs)
  case Nil
  then show ?case by simp
next
  case (Cons w ws)
  have i: "fst w < length slots" using Cons.prems(2) by simp
  then have sz: "slot_sized (nat (nx * ny)) (slots ! fst w)" using Cons.prems(1) by simp
  obtain h1 es where 1: "ThreadedRequestData self inp (snd w) (slots ! fst w) = Inr (h1, es)"
      "run_work self inp ws (slots[fst w := Some h1], errs @ es) = Inr (td, errs1)"
    using Cons.prems(3) by (auto split: sum.splits)
  note t = ThreadedRequestData_sum[OF assms sz 1(1)]
  have a: "\<forall>slot\<in>set (slots[fst w := Some h1]). slot_sized (nat (nx * ny)) slot"
  proof
    fix slot assume "slot \<in> set (slots[fst w := Some h1])"
    then have "slot \<in> insert (Some h1) (set slots)"
      using set_update_subset_insert by fastforce
    then show "slot_sized (nat (nx * ny)) slot"
      using Cons.prems(1) t by (auto simp: slot_sized_def)
  qed
  have b: "\<forall>v\<in>set ws. fst v < length (slots[fst w := Some h1])"
    using Cons.prems(2) by simp
  have "sum_list (map slot_sum (slots[fst w := Some h1])) =
          sum_list (map slot_sum slots) + int (piece_count inp (snd w))"
    using sum_list_map_update[OF i, of slot_sum "Some h1"] t by (simp add: slot_sum_def)
  then show ?case using Cons.IH[OF a b 1(2)] by simp
qed

lemma sum_lessThan_add:
  fixes f :: "nat \<Rightarrow> int"
  shows "(\<Sum>k<a + b. f k) = (\<Sum>k<a. f k) + (\<Sum>i<b. f (a + i))"
  by (induction b) (simp_all add: add.assoc[symmetric])

lemma sum_rows:
  fixes f :: "nat \<Rightarrow> int"
  shows "(\<Sum>iy<ny. \<Sum>ix<nx. f (nx * iy + ix)) = (\<Sum>k<nx * ny. f k)"
proof (induction ny)
  case 0
  show ?case by simp
next
  case (Suc ny)
  have "(\<Sum>k<nx * Suc ny. f k) = (\<Sum>k<nx * ny + nx. f k)" by (simp add: add.commute)
  also have "\<dots> = (\<Sum>k<nx * ny. f k) + (\<Sum>ix<nx. f (nx * ny + ix))"
    by (rule sum_lessThan_add)
  finally show ?case using Suc by simp
qed


lemma sum_list_nth_sum:
  fixes d :: "int list"
  shows "sum_list d = (\<Sum>k<length d. d ! k)"
  by (simp add: sum_list_sum_nth atLeast0LessThan)

lemma buffer_sum:
  fixes d :: "int list"
  assumes "length d = nx * ny"
  shows "(\<Sum>ix<nx. \<Sum>iy<ny. d ! (nx * iy + ix)) = sum_list d"
proof -
  have "(\<Sum>ix<nx. \<Sum>iy<ny. d ! (nx * iy + ix)) = (\<Sum>iy<ny. \<Sum>ix<nx. d ! (nx * iy + ix))"
    by (rule sum.swap)
  also have "\<dots> = (\<Sum>k<nx * ny. d ! k)" by (rule sum_rows)
  finally show ?thesis using assms by (simp add: sum_list_nth_sum)
qed

lemma total_count_Cons:
  "total_count nx ny (slot # td) =
     (case slot of None \<Rightarrow> 0 | Some d \<Rightarrow> \<Sum>ix<nx. \<Sum>iy<ny. d ! (nx * iy + ix)) +
     total_count nx ny td"
  by (cases slot) (simp_all add: total_count_def joint_def cell_def sum.distrib)

lemma total_count_slots:
  "\<forall>slot\<in>set td. slot_sized (nx * ny) slot \<Longrightarrow>
   total_count nx ny td = sum_list (map slot_sum td)"
proof (induction td)
  case Nil
  show ?case by (simp add: total_count_def joint_def cell_def)
next
  case (Cons slot td)
  have "(case slot of None \<Rightarrow> 0 | Some d \<Rightarrow> \<Sum>ix<nx. \<Sum>iy<ny. d ! (nx * iy + ix)) = slot_sum slot"
    using Cons.prems by (cases slot) (simp_all add: slot_sum_def slot_sized_def buffer_sum)
  then show ?case using Cons by (simp add: total_count_Cons)
qed

lemma run_sum_of_cells:
  assumes "NumberOfBins self = (nx, ny)" "1 \<le> ny" "ny \<le> nx" "nx * nx < 2 ^ 31"
      and "vtkTemplateAliasMacro (ScalarType0 inp)" "vtkTemplateAliasMacro (ScalarType1 inp)"
      and "run_work self inp (work_items p inp)
             (replicate (if EnableSMP p then Suc (fold max (map fst (work_items p inp)) 0)
                         else NumberOfThreads p) None, []) = Inr (td, errs)"
  shows "total_count (nat nx) (nat ny) td = int (numberOfInMaskVoxelPairs p inp)"
proof -
  let ?k = "if EnableSMP p then Suc (fold max (map fst (work_items p inp)) 0)
            else NumberOfThreads p"
  have a: "\<forall>slot\<in>set (replicate ?k None). slot_sized (nat (nx * ny)) slot"
    by (simp add: slot_sized_def)
  have b: "\<forall>w\<in>set (work_items p inp). fst w < length (replicate ?k (None :: int list option))"
    using work_items_slots[of p inp] by simp
  note r = run_work_sum[OF assms(1-6) a b assms(7)]
  have n: "nat (nx * ny) = nat nx * nat ny" using assms(2,3) by (simp add: nat_mult_distrib)
  have "total_count (nat nx) (nat ny) td = sum_list (map slot_sum td)"
    using r unfolding n by (intro total_count_slots) simp
  also have "\<dots> = int (sum_list (map (\<lambda>w. piece_count inp (snd w)) (work_items p inp)))"
    using r by (simp add: slot_sum_def sum_list_replicate)
  finally show ?thesis by (simp add: numberOfInMaskVoxelPairs_def piece_count_def)
qed

end
